theory Spec2Isabelle
  imports Complex_Main "HOL-Library.Multiset"
begin

section \<open>Python values shared by ingest.py and chat.py\<close>

text \<open>
  Exceptions are values. The scripts raise \<open>ValueError\<close> and \<open>FileNotFoundError\<close>
  themselves; \<open>AttributeError\<close> is what Python raises for \<open>None.persist()\<close>;
  \<open>ProviderError\<close> stands for any exception thrown by an external collaborator
  (PDF loader, embedding provider, vector store, language model).
\<close>

datatype py_error =
    ValueError string
  | FileNotFoundError string
  | AttributeError string
  | ProviderError string

text \<open>Metadata values written by the scripts are strings and integers.\<close>

datatype mvalue = VStr string | VInt int

type_synonym metadata = "string \<rightharpoonup> mvalue"

record Document =
  page_content :: string
  metadata :: metadata

subsection \<open>\<open>str(int)\<close> and f-string rendering\<close>

definition digit_char :: "nat \<Rightarrow> char" where
  "digit_char d = ''0123456789'' ! d"

fun str_nat :: "nat \<Rightarrow> string" where
  "str_nat n = (if n < 10 then [digit_char n] else str_nat (n div 10) @ [digit_char (n mod 10)])"

declare str_nat.simps [simp del]

definition str_int :: "int \<Rightarrow> string" where
  "str_int i = (if i < 0 then CHR ''-'' # str_nat (nat (- i)) else str_nat (nat i))"

text \<open>What \<open>f"{v}"\<close> prints for a metadata value.\<close>

fun fstr :: "mvalue \<Rightarrow> string" where
  "fstr (VStr s) = s"
| "fstr (VInt i) = str_int i"

text \<open>\<open>d.get(key, default)\<close>.\<close>

definition dict_get :: "metadata \<Rightarrow> string \<Rightarrow> mvalue \<Rightarrow> mvalue" where
  "dict_get d k dflt = (case d k of None \<Rightarrow> dflt | Some v \<Rightarrow> v)"

text \<open>\<open>sep.join(xs)\<close>.\<close>

fun join :: "string \<Rightarrow> string list \<Rightarrow> string" where
  "join sep [] = []"
| "join sep [x] = x"
| "join sep (x # y # ys) = x @ sep @ join sep (y # ys)"

section \<open>chat.py: citation formatting\<close>

text \<open>The f-string of line 130 of chat.py.\<close>

definition source_info :: "metadata \<Rightarrow> string" where
  "source_info md =
     fstr (dict_get md ''filename'' (VStr ''Unknown'')) @ '' (page '' @
     fstr (dict_get md ''page_number'' (VStr ''?'')) @ '')''"

text \<open>
  The loop of \<open>format_sources\<close>, with its two local variables \<open>citations\<close> and
  \<open>seen_sources\<close> as accumulators.
\<close>

fun citation_loop :: "Document list \<Rightarrow> string list \<Rightarrow> string set \<Rightarrow> string list" where
  "citation_loop [] citations seen_sources = citations"
| "citation_loop (doc # docs) citations seen_sources =
     (if source_info (metadata doc) \<notin> seen_sources
      then citation_loop docs (citations @ [source_info (metadata doc)])
             (insert (source_info (metadata doc)) seen_sources)
      else citation_loop docs citations seen_sources)"

definition format_sources :: "Document list \<Rightarrow> string" where
  "format_sources source_documents =
     (if source_documents = [] then ''No sources found.''
      else ''Sources: '' @ join '', '' (citation_loop source_documents [] {}))"

section \<open>ingest.py\<close>

subsection \<open>Paths\<close>

text \<open>
  A \<open>pathlib.Path\<close> is represented by \<open>str(path)\<close>. \<open>path_name\<close> is \<open>Path.name\<close>,
  the final component, and \<open>path_stem\<close> is \<open>Path.stem\<close>: with \<open>i = name.rfind('.')\<close>,
  the name up to \<open>i\<close> when \<open>0 < i < len(name) - 1\<close> and the whole name otherwise.
\<close>

type_synonym path = string

definition path_name :: "path \<Rightarrow> string" where
  "path_name p = rev (takeWhile (\<lambda>c. c \<noteq> CHR ''/'') (rev p))"

definition rfind_dot :: "string \<Rightarrow> nat option" where
  "rfind_dot name =
     (if CHR ''.'' \<in> set name
      then Some (length name - 1 - length (takeWhile (\<lambda>c. c \<noteq> CHR ''.'') (rev name)))
      else None)"

definition path_stem :: "path \<Rightarrow> string" where
  "path_stem p =
     (let name = path_name p in
      case rfind_dot name of
        None \<Rightarrow> name
      | Some i \<Rightarrow> if 0 < i \<and> i < length name - 1 then take i name else name)"

subsection \<open>Configuration\<close>

text \<open>
  The process environment after \<open>load_dotenv()\<close>. The three numeric variables are given
  as the integer \<open>int(...)\<close> returns when the variable is set; a value that \<open>int\<close>
  cannot parse is outside the model.
\<close>

record environ =
  env_openai_api_key :: "string option"
  env_embedding_model :: "string option"
  env_persist_dir :: "string option"
  env_chunk_size :: "int option"
  env_chunk_overlap :: "int option"
  env_batch_size :: "int option"

record config =
  cfg_openai_api_key :: string
  cfg_embedding_model :: string
  cfg_persist_dir :: string
  cfg_chunk_size :: int
  cfg_chunk_overlap :: int
  cfg_batch_size :: int

text \<open>\<open>os.getenv(var, default)\<close>.\<close>

definition getenv :: "'a option \<Rightarrow> 'a \<Rightarrow> 'a" where
  "getenv v dflt = (case v of None \<Rightarrow> dflt | Some x \<Rightarrow> x)"

text \<open>\<open>not os.getenv(var)\<close>: the variable is unset or empty.\<close>

definition env_missing :: "string option \<Rightarrow> bool" where
  "env_missing v = (case v of None \<Rightarrow> True | Some x \<Rightarrow> x = [])"

definition missing_vars_message :: string where
  "missing_vars_message = ''Missing required environment variables: ['' @ [CHR 0x27] @ ''OPENAI_API_KEY'' @
     [CHR 0x27] @ '']''"

definition load_environment :: "environ \<Rightarrow> py_error + config" where
  "load_environment env =
     (if env_missing (env_openai_api_key env) then Inl (ValueError missing_vars_message)
      else Inr \<lparr>cfg_openai_api_key = getenv (env_openai_api_key env) [],
                cfg_embedding_model = getenv (env_embedding_model env) ''text-embedding-3-small'',
                cfg_persist_dir = getenv (env_persist_dir env) ''db'',
                cfg_chunk_size = getenv (env_chunk_size env) 1000,
                cfg_chunk_overlap = getenv (env_chunk_overlap env) 200,
                cfg_batch_size = getenv (env_batch_size env) 100\<rparr>)"

subsection \<open>External collaborators of the ingestion run\<close>

record text_splitter =
  ts_chunk_size :: int
  ts_chunk_overlap :: int
  ts_separators :: "string list"

type_synonym vector = "real list"

text \<open>
  Everything ingest.py calls but does not implement is a field of the world:
  \<^item> \<open>docs_dir_exists\<close>, \<open>docs_glob\<close>: the file system as \<open>find_pdf_files\<close> sees it;
  \<^item> \<open>splitter_rejects\<close>: any argument check the \<open>RecursiveCharacterTextSplitter\<close>
    constructor makes before it compares the overlap with the chunk size (library
    versions differ here), \<open>Some e\<close> when it raises \<open>e\<close> for a (chunk size, chunk
    overlap) pair;
  \<^item> \<open>pdf_load_and_split\<close>: \<open>PyPDFLoader(path).load_and_split(splitter)\<close>;
  \<^item> \<open>embed_vector\<close>: the vector the embedding model gives a text;
  \<^item> \<open>embed_fails k\<close>, \<open>store_fails k\<close>: whether the embedding call, respectively the
    store write, that is issued after \<open>k\<close> earlier ones raises;
  \<^item> \<open>embeddings_init_fails\<close>: whether the \<open>OpenAIEmbeddings\<close> constructor raises;
  \<^item> \<open>makedirs_fails d\<close>: whether the file system refuses to create the directory
    \<open>d\<close> (a non-empty path);
  \<^item> \<open>persist_fails\<close>: whether \<open>vectorstore.persist()\<close> raises.
\<close>

record ingest_world =
  environ :: environ
  docs_dir_exists :: bool
  docs_glob :: "path list"
  splitter_rejects :: "int \<Rightarrow> int \<Rightarrow> py_error option"
  pdf_load_and_split :: "path \<Rightarrow> text_splitter \<Rightarrow> py_error + Document list"
  embed_vector :: "string \<Rightarrow> vector"
  embed_fails :: "nat \<Rightarrow> py_error option"
  store_fails :: "nat \<Rightarrow> py_error option"
  embeddings_init_fails :: "py_error option"
  makedirs_fails :: "string \<Rightarrow> py_error option"
  persist_fails :: "py_error option"

record vector_record =
  vr_vector :: vector
  vr_text :: string
  vr_metadata :: metadata

datatype store_call = From_texts "string list" | Add_texts "string list"

text \<open>
  The observable state of the two capability interfaces: the records persisted in the
  collection \<open>pdf_knowledge\<close>, the embedding calls issued so far (each with its texts)
  and the store writes issued so far.
\<close>

record store_state =
  collection :: "vector_record list"
  embed_calls :: "string list list"
  append_calls :: "store_call list"

record Chroma =
  collection_name :: string
  persist_directory :: string

text \<open>
  Modelled from the spec: the Embedding Gateway and the Vector Store are external
  (langchain's \<open>OpenAIEmbeddings\<close> and \<open>Chroma\<close>), so \<open>embed_documents\<close>,
  \<open>store_append\<close>, \<open>from_texts\<close> and \<open>add_texts\<close> follow sections 4.2, 4.3 and 6 of the
  specification: one embedding call with all texts of the batch, whose result has the
  length and order of its input; then one append of the (vector, text, metadata)
  triples; \<open>from_texts\<close> creates the collection if absent and keeps what it holds.
\<close>

definition embed_documents ::
  "ingest_world \<Rightarrow> string list \<Rightarrow> store_state \<Rightarrow> (py_error + vector list) \<times> store_state" where
  "embed_documents w texts s =
     (let s' = s\<lparr>embed_calls := embed_calls s @ [texts]\<rparr> in
      case embed_fails w (length (embed_calls s)) of
        Some e \<Rightarrow> (Inl e, s')
      | None \<Rightarrow> (Inr (map (embed_vector w) texts), s'))"

definition store_append ::
  "ingest_world \<Rightarrow> store_call \<Rightarrow> vector list \<Rightarrow> string list \<Rightarrow> metadata list \<Rightarrow> store_state
     \<Rightarrow> py_error option \<times> store_state" where
  "store_append w call vectors texts metadatas s =
     (let s' = s\<lparr>append_calls := append_calls s @ [call]\<rparr> in
      case store_fails w (length (append_calls s)) of
        Some e \<Rightarrow> (Some e, s')
      | None \<Rightarrow>
          (None, s'\<lparr>collection := collection s' @
             map (\<lambda>(v, t, m). \<lparr>vr_vector = v, vr_text = t, vr_metadata = m\<rparr>)
               (zip vectors (zip texts metadatas))\<rparr>))"

definition add_texts ::
  "ingest_world \<Rightarrow> string list \<Rightarrow> metadata list \<Rightarrow> store_state \<Rightarrow> py_error option \<times> store_state" where
  "add_texts w texts metadatas s =
     (case embed_documents w texts s of
        (Inl e, s') \<Rightarrow> (Some e, s')
      | (Inr vectors, s') \<Rightarrow> store_append w (Add_texts texts) vectors texts metadatas s')"

definition from_texts ::
  "ingest_world \<Rightarrow> string list \<Rightarrow> metadata list \<Rightarrow> string \<Rightarrow> store_state
     \<Rightarrow> (py_error + Chroma) \<times> store_state" where
  "from_texts w texts metadatas directory s =
     (case embed_documents w texts s of
        (Inl e, s') \<Rightarrow> (Inl e, s')
      | (Inr vectors, s') \<Rightarrow>
          (case store_append w (From_texts texts) vectors texts metadatas s' of
             (Some e, s'') \<Rightarrow> (Inl e, s'')
           | (None, s'') \<Rightarrow>
               (Inr \<lparr>collection_name = ''pdf_knowledge'', persist_directory = directory\<rparr>, s'')))"

subsection \<open>Log records\<close>

text \<open>
  One constructor per \<open>logging\<close> call of ingest.py, with the values its f-string
  interpolates: \<open>Info_batch i n k\<close> is ``Processing batch i/n (k documents)...'',
  \<open>Error_ingestion_failed e\<close> is ``Ingestion failed: e''.
\<close>

datatype log_record =
    Info_starting
  | Info_env_loaded
  | Info_found nat
  | Warning_no_pdf
  | Info_processing string
  | Info_split string nat
  | Error_processing string py_error
  | Error_no_documents
  | Info_total nat
  | Info_embeddings_initialized
  | Info_num_batches nat
  | Info_batch nat nat nat
  | Info_success nat
  | Info_persisted string
  | Error_ingestion_failed py_error

subsection \<open>The functions of ingest.py\<close>

definition find_pdf_files :: "ingest_world \<Rightarrow> (py_error + path list) \<times> log_record list" where
  "find_pdf_files w =
     (if \<not> docs_dir_exists w
      then (Inl (FileNotFoundError
              (''Documents directory '' @ [CHR 0x27] @ ''docs'' @ [CHR 0x27] @ '' not found'')), [])
      else (Inr (docs_glob w), [Info_found (length (docs_glob w))]))"

text \<open>
  \<open>load_and_split_pdf\<close>: the \<open>try\<close> body loads the pages and updates the metadata of
  the page at index \<open>i\<close>; the \<open>except Exception\<close> branch logs and returns \<open>[]\<close>.
\<close>

definition add_metadata :: "path \<Rightarrow> nat \<times> Document \<Rightarrow> Document" where
  "add_metadata pdf_path p =
     (case p of (i, doc) \<Rightarrow>
        doc\<lparr>metadata := (metadata doc)
          (''source_path'' \<mapsto> VStr pdf_path,
           ''filename'' \<mapsto> VStr (path_name pdf_path),
           ''page_number'' \<mapsto> VInt (int i + 1),
           ''chunk_id'' \<mapsto> VStr (path_stem pdf_path @ ''_page_'' @ str_int (int i + 1)))\<rparr>)"

definition load_and_split_pdf ::
  "ingest_world \<Rightarrow> path \<Rightarrow> text_splitter \<Rightarrow> Document list \<times> log_record list" where
  "load_and_split_pdf w pdf_path splitter =
     (case pdf_load_and_split w pdf_path splitter of
        Inl e \<Rightarrow>
          ([], [Info_processing (path_name pdf_path), Error_processing (path_name pdf_path) e])
      | Inr pages \<Rightarrow>
          (map (add_metadata pdf_path) (enumerate 0 pages),
           [Info_processing (path_name pdf_path),
            Info_split (path_name pdf_path) (length pages)]))"

text \<open>\<open>range(i, stop, step)\<close> for a positive step, and the slice \<open>xs[i:j]\<close> for \<open>i \<le> j\<close>.\<close>

function range_from :: "nat \<Rightarrow> nat \<Rightarrow> nat \<Rightarrow> nat list" where
  "range_from i stop step =
     (if step = 0 \<or> stop \<le> i then [] else i # range_from (i + step) stop step)"
  by pat_completeness auto
termination
  by (relation "measure (\<lambda>(i, stop, step). stop - i)") auto

declare range_from.simps [simp del]

definition slice :: "'a list \<Rightarrow> nat \<Rightarrow> nat \<Rightarrow> 'a list" where
  "slice xs i j = take (j - i) (drop i xs)"

text \<open>
  \<open>process_documents_in_batches\<close>. Python's \<open>range\<close> raises \<open>ValueError\<close> for a zero
  step and is empty for a negative step with \<open>0 \<le> len(documents)\<close>.
\<close>

definition process_documents_in_batches ::
  "Document list \<Rightarrow> int \<Rightarrow> py_error + Document list list" where
  "process_documents_in_batches documents batch_size =
     (if batch_size = 0 then Inl (ValueError ''range() arg 3 must not be zero'')
      else if batch_size < 0 then Inr []
      else Inr (map (\<lambda>i. slice documents i (i + nat batch_size))
                  (range_from 0 (length documents) (nat batch_size))))"

text \<open>The loop of lines 134 to 137: \<open>all_documents.extend(load_and_split_pdf(...))\<close>.\<close>

fun load_all ::
  "ingest_world \<Rightarrow> path list \<Rightarrow> text_splitter \<Rightarrow> Document list \<times> log_record list" where
  "load_all w [] splitter = ([], [])"
| "load_all w (pdf_path # rest) splitter =
     (case load_and_split_pdf w pdf_path splitter of (documents, l1) \<Rightarrow>
      case load_all w rest splitter of (others, l2) \<Rightarrow> (documents @ others, l1 @ l2))"

text \<open>
  The loop of lines 159 to 178 over \<open>enumerate(batches)\<close>, with the local variable
  \<open>vectorstore\<close> (\<open>None\<close> until the first batch has been written). An exception leaves
  the loop at once; the store keeps what earlier batches wrote.
\<close>

fun batch_loop ::
  "ingest_world \<Rightarrow> string \<Rightarrow> nat \<Rightarrow> (nat \<times> Document list) list \<Rightarrow> Chroma option \<Rightarrow> store_state
     \<Rightarrow> py_error option \<times> Chroma option \<times> store_state \<times> log_record list" where
  "batch_loop w directory n [] vectorstore s = (None, vectorstore, s, [])"
| "batch_loop w directory n ((i, batch) # rest) vectorstore s =
     (let texts = map page_content batch;
          metadatas = map metadata batch;
          line = Info_batch (i + 1) n (length batch)
      in case vectorstore of
           None \<Rightarrow>
             (case from_texts w texts metadatas directory s of
                (Inl e, s') \<Rightarrow> (Some e, None, s', [line])
              | (Inr vs, s') \<Rightarrow>
                  (case batch_loop w directory n rest (Some vs) s' of
                     (r, vs', s'', l) \<Rightarrow> (r, vs', s'', line # l)))
         | Some vs \<Rightarrow>
             (case add_texts w texts metadatas s of
                (Some e, s') \<Rightarrow> (Some e, Some vs, s', [line])
              | (None, s') \<Rightarrow>
                  (case batch_loop w directory n rest (Some vs) s' of
                     (r, vs', s'', l) \<Rightarrow> (r, vs', s'', line # l))))"

text \<open>
  \<open>os.makedirs(persist_directory, exist_ok=True)\<close> of line 151. The empty path names
  no directory and raises \<open>FileNotFoundError\<close>; for any other path the file system
  decides.
\<close>

definition makedirs_empty_message :: string where
  "makedirs_empty_message =
     ''[Errno 2] No such file or directory: '' @ [CHR 0x27, CHR 0x27]"

definition makedirs :: "ingest_world \<Rightarrow> string \<Rightarrow> py_error option" where
  "makedirs w directory =
     (if directory = [] then Some (FileNotFoundError makedirs_empty_message)
      else makedirs_fails w directory)"

text \<open>
  Lines 139 to 185 of \<open>ingest_documents\<close>: the check of \<open>all_documents\<close>, the
  embeddings object, the persistence directory, the batches, the loop over them, and
  \<open>vectorstore.persist()\<close>, which raises \<open>AttributeError\<close> when \<open>vectorstore\<close> is still
  \<open>None\<close>. An exception of any of these steps leaves the function at that step.
\<close>

definition none_persist_message :: string where
  "none_persist_message =
     [CHR 0x27] @ ''NoneType'' @ [CHR 0x27] @ '' object has no attribute '' @
     [CHR 0x27] @ ''persist'' @ [CHR 0x27]"

definition embed_and_store ::
  "ingest_world \<Rightarrow> config \<Rightarrow> Document list \<Rightarrow> store_state
     \<Rightarrow> (py_error + unit) \<times> store_state \<times> log_record list" where
  "embed_and_store w cfg all_documents s =
     (if all_documents = [] then (Inr (), s, [Error_no_documents])
      else
        (case embeddings_init_fails w of
           Some e \<Rightarrow> (Inl e, s, [Info_total (length all_documents)])
         | None \<Rightarrow>
        (case makedirs w (cfg_persist_dir cfg) of
           Some e \<Rightarrow> (Inl e, s, [Info_total (length all_documents), Info_embeddings_initialized])
         | None \<Rightarrow>
        (case process_documents_in_batches all_documents (cfg_batch_size cfg) of
           Inl e \<Rightarrow> (Inl e, s, [Info_total (length all_documents), Info_embeddings_initialized])
         | Inr batches \<Rightarrow>
             (case batch_loop w (cfg_persist_dir cfg) (length batches) (enumerate 0 batches) None s of
                (r, vectorstore, s', l) \<Rightarrow>
                  (let pre = [Info_total (length all_documents), Info_embeddings_initialized,
                              Info_num_batches (length batches)] @ l
                   in case r of
                        Some e \<Rightarrow> (Inl e, s', pre)
                      | None \<Rightarrow>
                          (case vectorstore of
                             None \<Rightarrow>
                               (Inl (AttributeError none_persist_message), s', pre)
                           | Some vs \<Rightarrow>
                               (case persist_fails w of
                                  Some e \<Rightarrow> (Inl e, s', pre)
                                | None \<Rightarrow>
                                    (Inr (), s',
                                     pre @ [Info_success (length all_documents),
                                            Info_persisted (cfg_persist_dir cfg)])))))))))"

text \<open>
  The splitter built at lines 126 to 131; the separators are paragraph break, line
  break, space and the empty string.
\<close>

definition text_splitter_of :: "config \<Rightarrow> text_splitter" where
  "text_splitter_of cfg =
     \<lparr>ts_chunk_size = cfg_chunk_size cfg,
      ts_chunk_overlap = cfg_chunk_overlap cfg,
      ts_separators = [[CHR 0x0A, CHR 0x0A], [CHR 0x0A], '' '', []]\<rparr>"

text \<open>
  The constructor call of lines 126 to 131. ingest.py passes the configured sizes
  without comparing them; the constructor belongs to langchain, whose \<open>TextSplitter\<close>
  raises \<open>ValueError\<close> when the overlap is larger than the chunk size and accepts an
  overlap equal to it.
\<close>

definition overlap_message :: "int \<Rightarrow> int \<Rightarrow> string" where
  "overlap_message overlap csize =
     ''Got a larger chunk overlap ('' @ str_int overlap @ '') than chunk size ('' @
     str_int csize @ ''), should be smaller.''"

definition make_text_splitter :: "ingest_world \<Rightarrow> config \<Rightarrow> py_error + text_splitter" where
  "make_text_splitter w cfg =
     (case splitter_rejects w (cfg_chunk_size cfg) (cfg_chunk_overlap cfg) of
        Some e \<Rightarrow> Inl e
      | None \<Rightarrow>
          if cfg_chunk_size cfg < cfg_chunk_overlap cfg
          then Inl (ValueError (overlap_message (cfg_chunk_overlap cfg) (cfg_chunk_size cfg)))
          else Inr (text_splitter_of cfg))"

text \<open>
  Lines 114 to 141 of \<open>ingest_documents\<close>: configuration, file search, the splitter's
  constructor, the loading loop; then the rest of the \<open>try\<close> body.
\<close>

definition ingest_body ::
  "ingest_world \<Rightarrow> store_state \<Rightarrow> (py_error + unit) \<times> store_state \<times> log_record list" where
  "ingest_body w s =
     (case load_environment (environ w) of
        Inl e \<Rightarrow> (Inl e, s, [])
      | Inr cfg \<Rightarrow>
          (case find_pdf_files w of
             (Inl e, l1) \<Rightarrow> (Inl e, s, Info_env_loaded # l1)
           | (Inr pdf_files, l1) \<Rightarrow>
               if pdf_files = [] then (Inr (), s, Info_env_loaded # l1 @ [Warning_no_pdf])
               else
                 (case make_text_splitter w cfg of
                    Inl e \<Rightarrow> (Inl e, s, Info_env_loaded # l1)
                  | Inr splitter \<Rightarrow>
                      (case load_all w pdf_files splitter of
                         (all_documents, l2) \<Rightarrow>
                           (case embed_and_store w cfg all_documents s of
                              (r, s', l3) \<Rightarrow> (r, s', Info_env_loaded # l1 @ l2 @ l3))))))"

text \<open>
  \<open>ingest_documents\<close>: the \<open>try\<close> body, and the handler that logs the exception and
  raises it again. The function returns \<open>None\<close> (\<open>Inr ()\<close>) whenever it returns.
  \<open>setup_logging\<close>, which runs before the \<open>try\<close>, is taken to succeed.
\<close>

definition ingest_documents ::
  "ingest_world \<Rightarrow> store_state \<Rightarrow> (py_error + unit) \<times> store_state \<times> log_record list" where
  "ingest_documents w s =
     (case ingest_body w s of
        (Inl e, s', l) \<Rightarrow> (Inl e, s', Info_starting # l @ [Error_ingestion_failed e])
      | (Inr u, s', l) \<Rightarrow> (Inr u, s', Info_starting # l))"

section \<open>chat.py: the session\<close>

record chat_environ =
  cenv_openai_api_key :: "string option"
  cenv_embedding_model :: "string option"
  cenv_llm_model :: "string option"
  cenv_persist_dir :: "string option"
  cenv_retrieval_k :: "int option"

record chat_config =
  ccfg_openai_api_key :: string
  ccfg_embedding_model :: string
  ccfg_llm_model :: string
  ccfg_persist_dir :: string
  ccfg_retrieval_k :: int

text \<open>\<open>load_environment\<close> of chat.py.\<close>

definition chat_load_environment :: "chat_environ \<Rightarrow> py_error + chat_config" where
  "chat_load_environment env =
     (if env_missing (cenv_openai_api_key env) then Inl (ValueError missing_vars_message)
      else Inr \<lparr>ccfg_openai_api_key = getenv (cenv_openai_api_key env) [],
                ccfg_embedding_model = getenv (cenv_embedding_model env) ''text-embedding-3-small'',
                ccfg_llm_model = getenv (cenv_llm_model env) ''gpt-4o-mini'',
                ccfg_persist_dir = getenv (cenv_persist_dir env) ''db'',
                ccfg_retrieval_k = getenv (cenv_retrieval_k env) 4\<rparr>)"

type_synonym turn = "string \<times> string"

text \<open>
  What chat.py calls but does not implement: whether the persistence directory exists,
  what \<open>collection.count()\<close> returns, and \<open>chain_backend\<close>, the retrieval and
  generation the chain performs for a question given the turns its memory holds
  (an exception, or the answer with the retrieved documents).
\<close>

record chat_world =
  chat_environ :: chat_environ
  persist_dir_exists :: bool
  collection_count :: nat
  chain_backend :: "turn list \<Rightarrow> string \<Rightarrow> py_error + string \<times> Document list"

definition empty_index_message :: string where
  "empty_index_message =
     ''No documents found in the knowledge base. '' @
     ''Please run ingest.py first to populate the database.''"

definition initialize_vectorstore :: "chat_world \<Rightarrow> chat_config \<Rightarrow> py_error + Chroma" where
  "initialize_vectorstore w cfg =
     (if \<not> persist_dir_exists w
      then Inl (FileNotFoundError
             (''Database directory '' @ [CHR 0x27] @ ccfg_persist_dir cfg @ [CHR 0x27] @
              '' not found. Please run ingest.py first to create the knowledge base.''))
      else if collection_count w = 0 then Inl (ValueError empty_index_message)
      else Inr \<lparr>collection_name = ''pdf_knowledge'',
                persist_directory = ccfg_persist_dir cfg\<rparr>)"

text \<open>
  The chain object is represented by the turns of its \<open>ConversationBufferMemory\<close>;
  \<open>create_retrieval_chain\<close> builds it with an empty memory.
\<close>

definition create_retrieval_chain :: "Chroma \<Rightarrow> chat_config \<Rightarrow> turn list" where
  "create_retrieval_chain vectorstore cfg = []"

text \<open>The dictionary a chain call returns, read with \<open>result.get(key, default)\<close>.\<close>

record qa_result =
  res_answer :: "string option"
  res_source_documents :: "Document list option"

text \<open>
  Modelled from the spec: calling the chain is langchain's
  \<open>ConversationalRetrievalChain.__call__\<close>, which is not part of the repository.
  Following section 4.5 of the specification, a call that succeeds appends the
  (question, answer) turn to the memory and returns the answer with the source
  documents; a call that fails raises and leaves the memory as it was.
\<close>

definition qa_chain ::
  "chat_world \<Rightarrow> turn list \<Rightarrow> string \<Rightarrow> (py_error + qa_result) \<times> turn list" where
  "qa_chain w memory question =
     (case chain_backend w memory question of
        Inl e \<Rightarrow> (Inl e, memory)
      | Inr (a, docs) \<Rightarrow>
          (Inr \<lparr>res_answer = Some a, res_source_documents = Some docs\<rparr>,
           memory @ [(question, a)]))"

text \<open>\<open>str.strip()\<close> and \<open>str.lower()\<close> on ASCII text.\<close>

definition is_space :: "char \<Rightarrow> bool" where
  "is_space c \<longleftrightarrow>
     c \<in> set [CHR 0x09, CHR 0x0A, CHR 0x0B, CHR 0x0C, CHR 0x0D,
              CHR 0x1C, CHR 0x1D, CHR 0x1E, CHR 0x1F, CHR 0x20]"

definition strip :: "string \<Rightarrow> string" where
  "strip s = rev (dropWhile is_space (rev (dropWhile is_space s)))"

definition lower_char :: "char \<Rightarrow> char" where
  "lower_char c =
     (let n = (of_char c :: nat) in if 65 \<le> n \<and> n \<le> 90 then char_of (n + 32) else c)"

definition lower :: "string \<Rightarrow> string" where
  "lower s = map lower_char s"

text \<open>
  What the user does at the prompt: a line, or an interrupt. The end of the list is the
  end of standard input, where \<open>input\<close> raises \<open>EOFError\<close> and \<open>get_user_input\<close> returns
  \<open>exit\<close>.
\<close>

datatype stdin_event = Line string | KeyboardInterrupt

text \<open>
  What the script prints. \<open>Print_answer\<close> carries the answer and the citation line;
  the response time it also prints is a wall-clock measurement and is left out.
\<close>

datatype printed =
    Print_welcome
  | Print_goodbye
  | Print_interrupted
  | Print_answer string string
  | Print_query_error py_error
  | Print_init_failed py_error

definition no_answer_message :: string where
  "no_answer_message = ''I couldn'' @ [CHR 0x27] @ ''t generate an answer.''"

text \<open>
  The \<open>while True\<close> loop of \<open>chat_loop\<close> with \<open>get_user_input\<close> inlined. The result is
  the exit status of the process, the memory of the chain when the loop ends, and the
  output. The inner \<open>try\<close> prints the error of a failed query and goes on with the next
  input.
\<close>

fun conversation ::
  "chat_world \<Rightarrow> turn list \<Rightarrow> stdin_event list \<Rightarrow> int \<times> turn list \<times> printed list" where
  "conversation w memory [] = (0, memory, [Print_goodbye])"
| "conversation w memory (KeyboardInterrupt # rest) = (0, memory, [Print_interrupted])"
| "conversation w memory (Line text # rest) =
     (let user_input = strip text in
      if lower user_input \<in> set [''exit'', ''quit'', ''q'', []]
      then (0, memory, [Print_goodbye])
      else
        (case qa_chain w memory user_input of
           (Inl e, memory') \<Rightarrow>
             (case conversation w memory' rest of
                (status, m, out) \<Rightarrow> (status, m, Print_query_error e # out))
         | (Inr result, memory') \<Rightarrow>
             (case conversation w memory' rest of
                (status, m, out) \<Rightarrow>
                  (status, m,
                   Print_answer (getenv (res_answer result) no_answer_message)
                     (format_sources (getenv (res_source_documents result) [])) # out))))"

text \<open>
  \<open>chat_loop\<close>: a failure before the loop is printed with the troubleshooting steps and
  the process exits with status 1; no chain and no memory exist then (\<open>None\<close>).
\<close>

definition chat_loop ::
  "chat_world \<Rightarrow> stdin_event list \<Rightarrow> int \<times> turn list option \<times> printed list" where
  "chat_loop w inputs =
     (case chat_load_environment (chat_environ w) of
        Inl e \<Rightarrow> (1, None, [Print_init_failed e])
      | Inr cfg \<Rightarrow>
          (case initialize_vectorstore w cfg of
             Inl e \<Rightarrow> (1, None, [Print_init_failed e])
           | Inr vectorstore \<Rightarrow>
               (case conversation w (create_retrieval_chain vectorstore cfg) inputs of
                  (status, m, out) \<Rightarrow> (status, Some m, Print_welcome # out))))"

section \<open>Reference notions of the specification\<close>

text \<open>Deduplication that keeps the first occurrence of each element, in order.\<close>

definition first_seen :: "'a list \<Rightarrow> 'a list" where
  "first_seen xs = rev (remdups (rev xs))"

text \<open>A citation as the pair (filename, page) and the text it is listed as.\<close>

definition render_citation :: "string \<times> int \<Rightarrow> string" where
  "render_citation p = fst p @ '' (page '' @ str_int (snd p) @ '')''"

definition cites :: "Document \<Rightarrow> string \<times> int \<Rightarrow> bool" where
  "cites doc p \<longleftrightarrow>
     metadata doc ''filename'' = Some (VStr (fst p)) \<and>
     metadata doc ''page_number'' = Some (VInt (snd p))"

text \<open>The triples the store holds for a sequence of chunks.\<close>

definition records_of :: "ingest_world \<Rightarrow> Document list \<Rightarrow> vector_record list" where
  "records_of w documents =
     map (\<lambda>d. \<lparr>vr_vector = embed_vector w (page_content d), vr_text = page_content d,
               vr_metadata = metadata d\<rparr>) documents"

text \<open>
  The single unbounded call of section 4.2: one embedding call and one write for the
  whole chunk sequence.
\<close>

definition single_unbounded_call ::
  "ingest_world \<Rightarrow> Document list \<Rightarrow> string \<Rightarrow> store_state \<Rightarrow> (py_error + Chroma) \<times> store_state" where
  "single_unbounded_call w documents directory s =
     from_texts w (map page_content documents) (map metadata documents) directory s"

definition indexed_content :: "store_state \<Rightarrow> (string \<times> metadata) multiset" where
  "indexed_content s = image_mset (\<lambda>r. (vr_text r, vr_metadata r)) (mset (collection s))"

text \<open>One store call per batch: the first creates the collection, the rest append.\<close>

definition expected_store_calls :: "Document list list \<Rightarrow> store_call list" where
  "expected_store_calls batches =
     (case batches of
        [] \<Rightarrow> []
      | b # bs \<Rightarrow> From_texts (map page_content b) # map (\<lambda>x. Add_texts (map page_content x)) bs)"

text \<open>
  The ``Processing batch'' lines the loop logs for the batches \<open>bs\<close>, the first of
  which has index \<open>k\<close> among \<open>n\<close> batches.
\<close>

definition batch_lines :: "nat \<Rightarrow> nat \<Rightarrow> Document list list \<Rightarrow> log_record list" where
  "batch_lines n k bs = map (\<lambda>(i, b). Info_batch (i + 1) n (length b)) (enumerate k bs)"

fun is_batch_line :: "log_record \<Rightarrow> bool" where
  "is_batch_line (Info_batch i n k) = True"
| "is_batch_line other = False"

text \<open>
  What a run of the batch loop over \<open>bs\<close> from state \<open>s\<close> has done when it ends in
  state \<open>s'\<close> with result \<open>r\<close> and log \<open>l\<close>, \<open>j\<close> being the number of batches written:
  the store holds the records of the first \<open>j\<close> batches; on success every batch was
  written; on failure with \<open>e\<close> exactly \<open>j + 1\<close> batches were started, and \<open>e\<close> is what
  the embedding call or the store write of batch \<open>j\<close> raised.
\<close>

definition batch_outcome ::
  "ingest_world \<Rightarrow> nat \<Rightarrow> nat \<Rightarrow> Document list list \<Rightarrow> store_state \<Rightarrow>
   py_error option \<Rightarrow> store_state \<Rightarrow> log_record list \<Rightarrow> nat \<Rightarrow> bool" where
  "batch_outcome w n k bs s r s' l j \<longleftrightarrow>
     j \<le> length bs \<and>
     collection s' = collection s @ records_of w (concat (take j bs)) \<and>
     (case r of
        None \<Rightarrow> j = length bs \<and> embed_calls s' = embed_calls s @ map (map page_content) bs \<and>
          length (append_calls s') = length (append_calls s) + j \<and> l = batch_lines n k bs
      | Some e \<Rightarrow> j < length bs \<and>
          embed_calls s' = embed_calls s @ map (map page_content) (take (j + 1) bs) \<and>
          l = batch_lines n k (take (j + 1) bs) \<and>
          (embed_fails w (length (embed_calls s) + j) = Some e \<or>
           store_fails w (length (append_calls s) + j) = Some e))"

text \<open>Reading a decimal numeral back, the inverse of \<open>str_nat\<close>.\<close>

definition digit_val :: "char \<Rightarrow> nat" where
  "digit_val c = of_char c - 48"

definition parse_nat :: "string \<Rightarrow> nat" where
  "parse_nat s = foldl (\<lambda>a c. 10 * a + digit_val c) 0 s"

section \<open>Example worlds\<close>

definition page :: "string \<Rightarrow> Document" where
  "page t = \<lparr>page_content = t, metadata = Map.empty\<rparr>"

definition sample_environ :: environ where
  "sample_environ =
     \<lparr>env_openai_api_key = Some ''sk-test'', env_embedding_model = None,
      env_persist_dir = None, env_chunk_size = Some 20, env_chunk_overlap = Some 5,
      env_batch_size = Some 2\<rparr>"

text \<open>
  Three files: \<open>a.pdf\<close> gives three chunks, \<open>b.pdf\<close> two, and \<open>bad.pdf\<close> cannot be read.
  No external call fails.
\<close>

definition sample_world :: ingest_world where
  "sample_world =
     \<lparr>environ = sample_environ,
      docs_dir_exists = True,
      docs_glob = [''docs/a.pdf'', ''docs/bad.pdf'', ''docs/b.pdf''],
      splitter_rejects = (\<lambda>size overlap. None),
      pdf_load_and_split =
        (\<lambda>p splitter.
           if p = ''docs/a.pdf'' then Inr [page ''one'', page ''two'', page ''three'']
           else if p = ''docs/b.pdf'' then Inr [page ''four'', page ''five'']
           else Inl (ProviderError ''unreadable'')),
      embed_vector = (\<lambda>t. [real (length t)]),
      embed_fails = (\<lambda>k. None),
      store_fails = (\<lambda>k. None),
      embeddings_init_fails = None,
      makedirs_fails = (\<lambda>d. None),
      persist_fails = None\<rparr>"

definition empty_store :: store_state where
  "empty_store = \<lparr>collection = [], embed_calls = [], append_calls = []\<rparr>"

definition seeded_store :: store_state where
  "seeded_store =
     \<lparr>collection = [\<lparr>vr_vector = [1], vr_text = ''old'', vr_metadata = Map.empty\<rparr>],
      embed_calls = [], append_calls = []\<rparr>"

definition sample_config :: config where
  "sample_config =
     \<lparr>cfg_openai_api_key = ''sk-test'', cfg_embedding_model = ''text-embedding-3-small'',
      cfg_persist_dir = ''db'', cfg_chunk_size = 20, cfg_chunk_overlap = 5,
      cfg_batch_size = 2\<rparr>"

text \<open>
  Variations of the example world: the embedding provider fails on its first or on its
  second call; the store fails on its second write; the overlap is larger than the
  chunk size and the directory holds no PDF file; the overlap equals the chunk size.
\<close>

definition fail_first_world :: ingest_world where
  "fail_first_world =
     sample_world\<lparr>embed_fails := (\<lambda>k. if k = 0 then Some (ProviderError ''rate limit'') else None)\<rparr>"

definition fail_second_world :: ingest_world where
  "fail_second_world =
     sample_world\<lparr>embed_fails := (\<lambda>k. if k = 1 then Some (ProviderError ''rate limit'') else None)\<rparr>"

definition store_fail_world :: ingest_world where
  "store_fail_world =
     sample_world\<lparr>store_fails := (\<lambda>k. if k = 1 then Some (ProviderError ''disk full'') else None)\<rparr>"

definition no_pdf_world :: ingest_world where
  "no_pdf_world =
     sample_world\<lparr>environ := sample_environ\<lparr>env_chunk_overlap := Some 30\<rparr>, docs_glob := []\<rparr>"

definition larger_overlap_world :: ingest_world where
  "larger_overlap_world =
     sample_world\<lparr>environ := sample_environ\<lparr>env_chunk_overlap := Some 30\<rparr>\<rparr>"

definition equal_overlap_world :: ingest_world where
  "equal_overlap_world =
     sample_world\<lparr>environ := sample_environ\<lparr>env_chunk_overlap := Some 20\<rparr>\<rparr>"

text \<open>
  A chat world with a populated index whose chain answers every question except
  \<open>boom\<close>, on which the language model times out.
\<close>

definition sample_chat_world :: chat_world where
  "sample_chat_world =
     \<lparr>chat_environ =
        \<lparr>cenv_openai_api_key = Some ''sk-test'', cenv_embedding_model = None,
         cenv_llm_model = None, cenv_persist_dir = None, cenv_retrieval_k = None\<rparr>,
      persist_dir_exists = True,
      collection_count = 5,
      chain_backend =
        (\<lambda>memory question.
           if question = ''boom'' then Inl (ProviderError ''timeout'')
           else Inr (''re: '' @ question, []))\<rparr>"

definition sample_chat_config :: chat_config where
  "sample_chat_config =
     \<lparr>ccfg_openai_api_key = ''sk-test'', ccfg_embedding_model = ''text-embedding-3-small'',
      ccfg_llm_model = ''gpt-4o-mini'', ccfg_persist_dir = ''db'', ccfg_retrieval_k = 4\<rparr>"

section \<open>Auxiliary lemmas\<close>

subsection \<open>Rendering of integers and citations\<close>


lemma first_seen_Nil: "first_seen [] = []" by (simp add: first_seen_def)

lemma remdups_snoc: "remdups (xs @ [x]) = filter (\<lambda>y. y \<noteq> x) (remdups xs) @ [x]"
  by (induction xs) auto

lemma first_seen_Cons: "first_seen (x # xs) = x # first_seen (filter (\<lambda>y. y \<noteq> x) xs)"
  by (simp add: first_seen_def remdups_snoc rev_filter remdups_filter)

lemma first_seen_distinct: "distinct xs \<Longrightarrow> first_seen xs = xs"
  by (simp add: first_seen_def distinct_remdups_id)

lemma first_seen_map_inj: "inj f \<Longrightarrow> first_seen (map f xs) = map f (first_seen xs)"
proof -
  assume i: "inj f"
  have "remdups (map f ys) = map f (remdups ys)" for ys
    by (induction ys) (use i in \<open>auto simp: inj_eq\<close>)
  then show ?thesis by (simp add: first_seen_def rev_map)
qed

lemma citation_loop_first_seen:
  "seen = set cits \<Longrightarrow>
   citation_loop docs cits seen =
     cits @ first_seen (filter (\<lambda>s. s \<notin> set cits) (map (\<lambda>d. source_info (metadata d)) docs))"
proof (induction docs arbitrary: cits seen)
  case Nil
  then show ?case by (simp add: first_seen_Nil)
next
  case (Cons doc docs)
  show ?case
  proof (cases "source_info (metadata doc) \<in> set cits")
    case True
    with Cons show ?thesis by simp
  next
    case False
    with Cons.prems Cons.IH [of "insert (source_info (metadata doc)) seen" "cits @ [source_info (metadata doc)]"]
    show ?thesis by (simp add: first_seen_Cons conj_commute)
  qed
qed


lemma digit_val_digit_char: "d < 10 \<Longrightarrow> digit_val (digit_char d) = d"
proof -
  assume "d < 10"
  then have "d \<in> {0,1,2,3,4,5,6,7,8,9}" by auto
  then show ?thesis by (auto simp: digit_val_def digit_char_def)
qed

lemma digit_char_in: "d < 10 \<Longrightarrow> digit_char d \<in> set ''0123456789''"
  unfolding digit_char_def by (rule nth_mem) simp


lemma parse_str_nat: "parse_nat (str_nat n) = n"
proof (induction n rule: str_nat.induct)
  case (1 n)
  show ?case
  proof (cases "n < 10")
    case True
    then show ?thesis by (simp add: str_nat.simps [of n] parse_nat_def digit_val_digit_char)
  next
    case False
    with 1 show ?thesis
      by (simp add: str_nat.simps [of n] parse_nat_def digit_val_digit_char)
  qed
qed

lemma str_nat_inj: "str_nat a = str_nat b \<Longrightarrow> a = b"
  by (metis parse_str_nat)

lemma str_nat_digits: "set (str_nat n) \<subseteq> set ''0123456789''"
proof (induction n rule: str_nat.induct)
  case (1 n)
  show ?case
  proof (cases "n < 10")
    case True
    then show ?thesis using digit_char_in [of n] by (simp add: str_nat.simps [of n])
  next
    case False
    with 1 digit_char_in [of "n mod 10"] show ?thesis
      by (simp add: str_nat.simps [of n])
  qed
qed

lemma str_int_inj: "str_int a = str_int b \<Longrightarrow> a = b"
proof -
  assume e: "str_int a = str_int b"
  have nd: "hd (str_nat n) \<noteq> CHR ''-''" for n
  proof -
    have "str_nat n \<noteq> []" by (subst str_nat.simps) simp
    then have "hd (str_nat n) \<in> set (str_nat n)" by simp
    with str_nat_digits [of n] show ?thesis by auto
  qed
  show ?thesis
  proof (cases "a < 0")
    case at: True
    show ?thesis
    proof (cases "b < 0")
      case True
      with at e have "nat (- a) = nat (- b)" by (auto simp: str_int_def dest: str_nat_inj)
      with at True show ?thesis by simp
    next
      case False
      from e have "hd (str_int a) = hd (str_int b)" by simp
      with at False nd [of "nat b"] show ?thesis by (simp add: str_int_def)
    qed
  next
    case af: False
    show ?thesis
    proof (cases "b < 0")
      case True
      from e have "hd (str_int a) = hd (str_int b)" by simp
      with af True nd [of "nat a"] show ?thesis by (simp add: str_int_def)
    next
      case False
      with af e have "nat a = nat b" by (auto simp: str_int_def dest: str_nat_inj)
      with af False show ?thesis by simp
    qed
  qed
qed

lemma str_int_no_paren: "CHR ''('' \<notin> set (str_int i)"
  using str_nat_digits [of "nat i"] str_nat_digits [of "nat (- i)"]
  by (auto simp: str_int_def)

lemma split_at_last:
  assumes "xs @ c # ys = xs' @ c # ys'" and "c \<notin> set ys" and "c \<notin> set ys'"
  shows "xs = xs' \<and> ys = ys'"
proof -
  from assms(1) have "rev ys @ c # rev xs = rev ys' @ c # rev xs'"
    by (metis rev.simps(2) rev_append append_assoc append_Cons append_Nil rev_rev_ident)
  moreover have "takeWhile (\<lambda>x. x \<noteq> c) (rev ys @ c # rev xs) = rev ys"
    using assms(2) by (subst takeWhile_append2) auto
  moreover have "takeWhile (\<lambda>x. x \<noteq> c) (rev ys' @ c # rev xs') = rev ys'"
    using assms(3) by (subst takeWhile_append2) auto
  ultimately have "rev ys = rev ys'" by simp
  with assms(1) show ?thesis by simp
qed


lemma render_citation_inj: "inj render_citation"
proof (rule injI)
  fix p q :: "string \<times> int"
  assume "render_citation p = render_citation q"
  then have "(fst p @ '' '') @ CHR ''('' # (''page '' @ str_int (snd p) @ '')'')
     = (fst q @ '' '') @ CHR ''('' # (''page '' @ str_int (snd q) @ '')'')"
    by (simp add: render_citation_def)
  then have "fst p @ '' '' = fst q @ '' '' \<and> ''page '' @ str_int (snd p) @ '')'' = ''page '' @ str_int (snd q) @ '')''"
    by (rule split_at_last) (simp_all add: str_int_no_paren)
  then show "p = q" by (auto simp: prod_eq_iff dest: str_int_inj)
qed

subsection \<open>Ranges and batches\<close>

lemma range_from_length:
  "0 < step \<Longrightarrow> length (range_from i stop step) = (stop - i + step - 1) div step"
proof (induction i stop step rule: range_from.induct)
  case (1 i stop step)
  show ?case
  proof (cases "stop \<le> i")
    case True
    with 1(2) show ?thesis by (simp add: range_from.simps [of i])
  next
    case False
    with 1 have ih: "length (range_from (i + step) stop step) = (stop - (i + step) + step - 1) div step"
      by simp
    show ?thesis
    proof (cases "stop \<le> i + step")
      case True
      with False 1(2) have "(stop - i + step - 1) div step = 1"
        by (intro div_nat_eqI) auto
      with True False 1(2) ih show ?thesis by (simp add: range_from.simps [of i])
    next
      case f2: False
      define a where "a = stop - (i + step) + step - 1"
      from f2 have "stop - i + step - 1 = a + step" by (simp add: a_def)
      moreover have "(a + step) div step = a div step + 1" using 1(2) by simp
      ultimately have "(stop - i + step - 1) div step = (stop - (i + step) + step - 1) div step + 1"
        by (simp only: a_def)
      with False 1(2) ih show ?thesis by (simp add: range_from.simps [of i])
    qed
  qed
qed

lemma range_from_concat:
  "0 < step \<Longrightarrow>
   concat (map (\<lambda>i. slice xs i (i + step)) (range_from i (length xs) step)) = drop i xs"
proof (induction i "length xs" step rule: range_from.induct)
  case (1 i step)
  show ?case
  proof (cases "length xs \<le> i")
    case True
    then show ?thesis by (simp add: range_from.simps [of i])
  next
    case False
    with 1 have "concat (map (\<lambda>i. slice xs i (i + step)) (range_from (i + step) (length xs) step))
        = drop (i + step) xs" by simp
    moreover have "take step (drop i xs) @ drop (i + step) xs = drop i xs"
      by (metis append_take_drop_id drop_drop add.commute)
    ultimately show ?thesis using False 1(2)
      by (simp add: range_from.simps [of i] slice_def)
  qed
qed

subsection \<open>The batch loop\<close>

lemma records_of_append: "records_of w (xs @ ys) = records_of w xs @ records_of w ys"
  by (simp add: records_of_def)

lemma add_texts_cases:
  assumes "add_texts w (map page_content b) (map metadata b) s = (r, s1)"
  shows "(r = None \<and> collection s1 = collection s @ records_of w b \<and>
          embed_calls s1 = embed_calls s @ [map page_content b] \<and>
          append_calls s1 = append_calls s @ [Add_texts (map page_content b)]) \<or>
         (\<exists>e. r = Some e \<and> collection s1 = collection s \<and>
          embed_calls s1 = embed_calls s @ [map page_content b] \<and>
          (embed_fails w (length (embed_calls s)) = Some e \<or>
           store_fails w (length (append_calls s)) = Some e))"
  using assms
  by (auto simp: add_texts_def embed_documents_def store_append_def records_of_def Let_def
      zip_map_map zip_same_conv_map split: option.splits)

lemma from_texts_cases:
  assumes "from_texts w (map page_content b) (map metadata b) d s = (r, s1)"
  shows "(r = Inr \<lparr>collection_name = ''pdf_knowledge'', persist_directory = d\<rparr> \<and>
          collection s1 = collection s @ records_of w b \<and>
          embed_calls s1 = embed_calls s @ [map page_content b] \<and>
          append_calls s1 = append_calls s @ [From_texts (map page_content b)]) \<or>
         (\<exists>e. r = Inl e \<and> collection s1 = collection s \<and>
          embed_calls s1 = embed_calls s @ [map page_content b] \<and>
          (embed_fails w (length (embed_calls s)) = Some e \<or>
           store_fails w (length (append_calls s)) = Some e))"
  using assms
  by (auto simp: from_texts_def embed_documents_def store_append_def records_of_def Let_def
      zip_map_map zip_same_conv_map split: option.splits)

lemma batch_outcome_fail_head:
  assumes "collection s1 = collection s" "embed_calls s1 = embed_calls s @ [map page_content b]"
    "embed_fails w (length (embed_calls s)) = Some e \<or> store_fails w (length (append_calls s)) = Some e"
  shows "batch_outcome w n k (b # rest) s (Some e) s1 [Info_batch (k + 1) n (length b)] 0"
  using assms by (simp add: batch_outcome_def batch_lines_def records_of_def)

lemma batch_outcome_step:
  assumes "collection s1 = collection s @ records_of w b"
    "embed_calls s1 = embed_calls s @ [map page_content b]"
    "length (append_calls s1) = length (append_calls s) + 1"
    "batch_outcome w n (Suc k) rest s1 r s' l j"
  shows "batch_outcome w n k (b # rest) s r s' (Info_batch (k + 1) n (length b) # l) (Suc j)"
  using assms
  by (cases r) (auto simp: batch_outcome_def batch_lines_def records_of_append)

lemma batch_loop_outcome:
  "batch_loop w d n (enumerate k bs) vs s = (r, vs', s', l) \<Longrightarrow>
   \<exists>j. batch_outcome w n k bs s r s' l j"
proof (induction bs arbitrary: k vs s r vs' s' l)
  case Nil
  then show ?case by (auto simp: batch_outcome_def batch_lines_def records_of_def)
next
  case (Cons b rest)
  show ?case
  proof (cases vs)
    case None
    obtain r1 s1 where f: "from_texts w (map page_content b) (map metadata b) d s = (r1, s1)"
      by (cases "from_texts w (map page_content b) (map metadata b) d s") auto
    from from_texts_cases [OF f] consider
      (fail) e where "r1 = Inl e" "collection s1 = collection s"
        "embed_calls s1 = embed_calls s @ [map page_content b]"
        "embed_fails w (length (embed_calls s)) = Some e \<or> store_fails w (length (append_calls s)) = Some e"
      | (ok) "r1 = Inr \<lparr>collection_name = ''pdf_knowledge'', persist_directory = d\<rparr>"
        "collection s1 = collection s @ records_of w b"
        "embed_calls s1 = embed_calls s @ [map page_content b]"
        "append_calls s1 = append_calls s @ [From_texts (map page_content b)]"
      by blast
    then show ?thesis
    proof cases
      case (fail e)
      then have a: "r1 = Inl e" "collection s1 = collection s"
        "embed_calls s1 = embed_calls s @ [map page_content b]"
        "embed_fails w (length (embed_calls s)) = Some e \<or> store_fails w (length (append_calls s)) = Some e"
        by simp_all
      with Cons.prems None f have "r = Some e" "s' = s1" "l = [Info_batch (k + 1) n (length b)]"
        by (simp_all add: Let_def)
      with batch_outcome_fail_head [OF a(2,3,4)] show ?thesis by blast
    next
      case ok
      then have a: "r1 = Inr \<lparr>collection_name = ''pdf_knowledge'', persist_directory = d\<rparr>"
        "collection s1 = collection s @ records_of w b"
        "embed_calls s1 = embed_calls s @ [map page_content b]"
        "append_calls s1 = append_calls s @ [From_texts (map page_content b)]"
        by simp_all
      obtain r2 vs2 s2 l2 where
        b: "batch_loop w d n (enumerate (Suc k) rest) (Some \<lparr>collection_name = ''pdf_knowledge'', persist_directory = d\<rparr>) s1 = (r2, vs2, s2, l2)"
        by (metis prod_cases4)
      with Cons.prems None f a(1) have "r = r2" "s' = s2" "l = Info_batch (k + 1) n (length b) # l2"
        by (simp_all add: Let_def)
      moreover have len: "length (append_calls s1) = length (append_calls s) + 1"
        using a(4) by simp
      moreover from Cons.IH [OF b] obtain j where j: "batch_outcome w n (Suc k) rest s1 r2 s2 l2 j" ..
      note batch_outcome_step [OF a(2) a(3) len j]
      ultimately show ?thesis by blast
    qed
  next
    case (Some v)
    obtain r1 s1 where f: "add_texts w (map page_content b) (map metadata b) s = (r1, s1)"
      by (cases "add_texts w (map page_content b) (map metadata b) s") auto
    from add_texts_cases [OF f] consider
      (fail) e where "r1 = Some e" "collection s1 = collection s"
        "embed_calls s1 = embed_calls s @ [map page_content b]"
        "embed_fails w (length (embed_calls s)) = Some e \<or> store_fails w (length (append_calls s)) = Some e"
      | (ok) "r1 = None"
        "collection s1 = collection s @ records_of w b"
        "embed_calls s1 = embed_calls s @ [map page_content b]"
        "append_calls s1 = append_calls s @ [Add_texts (map page_content b)]"
      by blast
    then show ?thesis
    proof cases
      case (fail e)
      then have a: "r1 = Some e" "collection s1 = collection s"
        "embed_calls s1 = embed_calls s @ [map page_content b]"
        "embed_fails w (length (embed_calls s)) = Some e \<or> store_fails w (length (append_calls s)) = Some e"
        by simp_all
      with Cons.prems Some f have "r = Some e" "s' = s1" "l = [Info_batch (k + 1) n (length b)]"
        by (simp_all add: Let_def)
      with batch_outcome_fail_head [OF a(2,3,4)] show ?thesis by blast
    next
      case ok
      then have a: "r1 = None"
        "collection s1 = collection s @ records_of w b"
        "embed_calls s1 = embed_calls s @ [map page_content b]"
        "append_calls s1 = append_calls s @ [Add_texts (map page_content b)]"
        by simp_all
      obtain r2 vs2 s2 l2 where
        b: "batch_loop w d n (enumerate (Suc k) rest) (Some v) s1 = (r2, vs2, s2, l2)"
        by (metis prod_cases4)
      with Cons.prems Some f a(1) have "r = r2" "s' = s2" "l = Info_batch (k + 1) n (length b) # l2"
        by (simp_all add: Let_def)
      moreover have len: "length (append_calls s1) = length (append_calls s) + 1"
        using a(4) by simp
      moreover from Cons.IH [OF b] obtain j where j: "batch_outcome w n (Suc k) rest s1 r2 s2 l2 j" ..
      note batch_outcome_step [OF a(2) a(3) len j]
      ultimately show ?thesis by blast
    qed
  qed
qed

lemma batch_loop_keeps_store:
  "batch_loop w d n xs (Some v) s = (r, vs', s', l) \<Longrightarrow> vs' = Some v"
proof (induction xs arbitrary: s r vs' s' l)
  case Nil
  then show ?case by simp
next
  case (Cons x xs)
  obtain i b where x: "x = (i, b)" by (cases x)
  obtain r1 s1 where f: "add_texts w (map page_content b) (map metadata b) s = (r1, s1)"
    by (cases "add_texts w (map page_content b) (map metadata b) s") auto
  show ?case
  proof (cases r1)
    case None
    obtain r2 vs2 s2 l2 where b: "batch_loop w d n xs (Some v) s1 = (r2, vs2, s2, l2)"
      by (metis prod_cases4)
    with Cons.prems x f None have "vs' = vs2" by (simp add: Let_def)
    with Cons.IH [OF b] show ?thesis by simp
  next
    case (Some e)
    with Cons.prems x f show ?thesis by (simp add: Let_def)
  qed
qed

lemma batch_loop_handle:
  assumes "batch_loop w d n (enumerate k bs) None s = (None, vs', s', l)" "bs \<noteq> []"
  shows "vs' \<noteq> None"
proof -
  from assms(2) obtain b rest where bs: "bs = b # rest" by (cases bs) auto
  obtain r1 s1 where f: "from_texts w (map page_content b) (map metadata b) d s = (r1, s1)"
    by (cases "from_texts w (map page_content b) (map metadata b) d s") auto
  show ?thesis
  proof (cases r1)
    case (Inl e)
    with assms(1) bs f show ?thesis by (simp add: Let_def)
  next
    case (Inr v)
    obtain r2 vs2 s2 l2 where b: "batch_loop w d n (enumerate (Suc k) rest) (Some v) s1 = (r2, vs2, s2, l2)"
      by (metis prod_cases4)
    with assms(1) bs f Inr have "vs' = vs2" by (simp add: Let_def)
    with batch_loop_keeps_store [OF b] show ?thesis by simp
  qed
qed

lemma add_texts_fails:
  assumes "embed_fails w (length (embed_calls s)) = Some e \<or>
           (embed_fails w (length (embed_calls s)) = None \<and>
            store_fails w (length (append_calls s)) = Some e)"
  shows "\<exists>s1. add_texts w (map page_content b) (map metadata b) s = (Some e, s1) \<and>
           collection s1 = collection s \<and>
           embed_calls s1 = embed_calls s @ [map page_content b]"
  using assms
  by (auto simp: add_texts_def embed_documents_def store_append_def Let_def)

lemma from_texts_fails:
  assumes "embed_fails w (length (embed_calls s)) = Some e \<or>
           (embed_fails w (length (embed_calls s)) = None \<and>
            store_fails w (length (append_calls s)) = Some e)"
  shows "\<exists>s1. from_texts w (map page_content b) (map metadata b) d s = (Inl e, s1) \<and>
           collection s1 = collection s \<and>
           embed_calls s1 = embed_calls s @ [map page_content b]"
  using assms
  by (auto simp: from_texts_def embed_documents_def store_append_def Let_def)

lemma add_texts_succeeds:
  assumes "embed_fails w (length (embed_calls s)) = None"
    and "store_fails w (length (append_calls s)) = None"
  shows "\<exists>s1. add_texts w (map page_content b) (map metadata b) s = (None, s1) \<and>
           collection s1 = collection s @ records_of w b \<and>
           embed_calls s1 = embed_calls s @ [map page_content b] \<and>
           length (append_calls s1) = length (append_calls s) + 1"
  using assms
  by (simp add: add_texts_def embed_documents_def store_append_def records_of_def Let_def
      zip_map_map zip_same_conv_map)

lemma from_texts_succeeds:
  assumes "embed_fails w (length (embed_calls s)) = None"
    and "store_fails w (length (append_calls s)) = None"
  shows "\<exists>v s1. from_texts w (map page_content b) (map metadata b) d s = (Inr v, s1) \<and>
           collection s1 = collection s @ records_of w b \<and>
           embed_calls s1 = embed_calls s @ [map page_content b] \<and>
           length (append_calls s1) = length (append_calls s) + 1"
  using assms
  by (simp add: from_texts_def embed_documents_def store_append_def records_of_def Let_def
      zip_map_map zip_same_conv_map)

text \<open>
  A failing call at batch \<open>j\<close>, after \<open>j\<close> batches whose calls succeed, ends the loop
  with that exception: the first \<open>j\<close> batches are in the store, \<open>j + 1\<close> batches were
  embedded and announced, and no later batch is touched.
\<close>

lemma batch_loop_fails_at:
  assumes "j < length bs"
    and "\<forall>i<j. embed_fails w (length (embed_calls s) + i) = None \<and>
               store_fails w (length (append_calls s) + i) = None"
    and "embed_fails w (length (embed_calls s) + j) = Some e \<or>
         (embed_fails w (length (embed_calls s) + j) = None \<and>
          store_fails w (length (append_calls s) + j) = Some e)"
  shows "\<exists>vs' s'.
           batch_loop w d n (enumerate k bs) vs s =
             (Some e, vs', s', batch_lines n k (take (j + 1) bs)) \<and>
           collection s' = collection s @ records_of w (concat (take j bs)) \<and>
           embed_calls s' = embed_calls s @ map (map page_content) (take (j + 1) bs)"
  using assms
proof (induction bs arbitrary: j k vs s)
  case Nil
  then show ?case by simp
next
  case (Cons b rest)
  show ?case
  proof (cases j)
    case 0
    with Cons.prems(3) have f: "embed_fails w (length (embed_calls s)) = Some e \<or>
        (embed_fails w (length (embed_calls s)) = None \<and>
         store_fails w (length (append_calls s)) = Some e)" by simp
    show ?thesis
    proof (cases vs)
      case None
      from from_texts_fails [OF f, of b d] obtain s1 where
        "from_texts w (map page_content b) (map metadata b) d s = (Inl e, s1)"
        "collection s1 = collection s" "embed_calls s1 = embed_calls s @ [map page_content b]"
        by blast
      with 0 None show ?thesis by (simp add: Let_def batch_lines_def records_of_def)
    next
      case (Some v)
      from add_texts_fails [OF f, of b] obtain s1 where
        "add_texts w (map page_content b) (map metadata b) s = (Some e, s1)"
        "collection s1 = collection s" "embed_calls s1 = embed_calls s @ [map page_content b]"
        by blast
      with 0 Some show ?thesis by (simp add: Let_def batch_lines_def records_of_def)
    qed
  next
    case (Suc j')
    from Cons.prems(2) Suc have ok: "embed_fails w (length (embed_calls s)) = None"
      "store_fails w (length (append_calls s)) = None" by auto
    have step: "\<exists>vs' s'.
           batch_loop w d n (enumerate (Suc k) rest) (Some v) s1 =
             (Some e, vs', s', batch_lines n (Suc k) (take (j' + 1) rest)) \<and>
           collection s' = collection s1 @ records_of w (concat (take j' rest)) \<and>
           embed_calls s' = embed_calls s1 @ map (map page_content) (take (j' + 1) rest)"
      if s1: "embed_calls s1 = embed_calls s @ [map page_content b]"
        "length (append_calls s1) = length (append_calls s) + 1" for v s1
    proof (rule Cons.IH)
      from Cons.prems(1) Suc show "j' < length rest" by simp
      show "\<forall>i<j'. embed_fails w (length (embed_calls s1) + i) = None \<and>
               store_fails w (length (append_calls s1) + i) = None"
      proof (intro allI impI)
        fix i assume "i < j'"
        with Suc have "Suc i < j" by simp
        with Cons.prems(2) have "embed_fails w (length (embed_calls s) + Suc i) = None \<and>
               store_fails w (length (append_calls s) + Suc i) = None" by blast
        with s1 show "embed_fails w (length (embed_calls s1) + i) = None \<and>
               store_fails w (length (append_calls s1) + i) = None" by simp
      qed
      from Cons.prems(3) Suc s1
      show "embed_fails w (length (embed_calls s1) + j') = Some e \<or>
         (embed_fails w (length (embed_calls s1) + j') = None \<and>
          store_fails w (length (append_calls s1) + j') = Some e)" by simp
    qed
    show ?thesis
    proof (cases vs)
      case None
      from from_texts_succeeds [OF ok, of b d] obtain v s1 where
        f: "from_texts w (map page_content b) (map metadata b) d s = (Inr v, s1)"
        and c: "collection s1 = collection s @ records_of w b"
        and e1: "embed_calls s1 = embed_calls s @ [map page_content b]"
        and a1: "length (append_calls s1) = length (append_calls s) + 1"
        by blast
      from step [OF e1 a1, of v] obtain vs' s' where
        "batch_loop w d n (enumerate (Suc k) rest) (Some v) s1 =
             (Some e, vs', s', batch_lines n (Suc k) (take (j' + 1) rest))"
        "collection s' = collection s1 @ records_of w (concat (take j' rest))"
        "embed_calls s' = embed_calls s1 @ map (map page_content) (take (j' + 1) rest)"
        by blast
      with None Suc f c e1 show ?thesis
        by (simp add: Let_def batch_lines_def records_of_append)
    next
      case (Some v)
      from add_texts_succeeds [OF ok, of b] obtain s1 where
        f: "add_texts w (map page_content b) (map metadata b) s = (None, s1)"
        and c: "collection s1 = collection s @ records_of w b"
        and e1: "embed_calls s1 = embed_calls s @ [map page_content b]"
        and a1: "length (append_calls s1) = length (append_calls s) + 1"
        by blast
      from step [OF e1 a1, of v] obtain vs' s' where
        "batch_loop w d n (enumerate (Suc k) rest) (Some v) s1 =
             (Some e, vs', s', batch_lines n (Suc k) (take (j' + 1) rest))"
        "collection s' = collection s1 @ records_of w (concat (take j' rest))"
        "embed_calls s' = embed_calls s1 @ map (map page_content) (take (j' + 1) rest)"
        by blast
      with Some Suc f c e1 show ?thesis
        by (simp add: Let_def batch_lines_def records_of_append)
    qed
  qed
qed

lemma load_all_append:
  "load_all w (ps @ qs) sp =
     (fst (load_all w ps sp) @ fst (load_all w qs sp), snd (load_all w ps sp) @ snd (load_all w qs sp))"
  by (induction ps) (auto split: prod.splits)

lemma load_and_split_pdf_no_batch_line: "filter is_batch_line (snd (load_and_split_pdf w p sp)) = []"
  by (simp add: load_and_split_pdf_def split: sum.splits)

lemma load_all_no_batch_line: "filter is_batch_line (snd (load_all w ps sp)) = []"
proof (induction ps)
  case Nil
  show ?case by simp
next
  case (Cons p ps)
  have "snd (load_all w (p # ps) sp) = snd (load_and_split_pdf w p sp) @ snd (load_all w ps sp)"
    by (simp split: prod.splits)
  with Cons load_and_split_pdf_no_batch_line [of w p sp] show ?case by simp
qed

lemma batch_lines_filter: "filter is_batch_line (batch_lines n k bs) = batch_lines n k bs"
  by (induction bs arbitrary: k) (auto simp: batch_lines_def)

lemma ingest_body_reach:
  assumes "load_environment (environ w) = Inr cfg" "docs_dir_exists w"
    "splitter_rejects w (cfg_chunk_size cfg) (cfg_chunk_overlap cfg) = None"
    "cfg_chunk_overlap cfg \<le> cfg_chunk_size cfg"
  shows "ingest_body w s =
    (if docs_glob w = []
     then (Inr (), s, [Info_env_loaded, Info_found 0, Warning_no_pdf])
     else (case embed_and_store w cfg (fst (load_all w (docs_glob w) (text_splitter_of cfg))) s of
             (r, s', l3) \<Rightarrow>
               (r, s', Info_env_loaded # Info_found (length (docs_glob w)) #
                  snd (load_all w (docs_glob w) (text_splitter_of cfg)) @ l3)))"
  using assms
  by (simp add: ingest_body_def find_pdf_files_def make_text_splitter_def split: prod.splits)

lemma process_batches_pos:
  "0 < B \<Longrightarrow> process_documents_in_batches docs B =
     Inr (map (\<lambda>i. slice docs i (i + nat B)) (range_from 0 (length docs) (nat B)))"
  by (simp add: process_documents_in_batches_def)

lemma batch_loop_add_calls:
  "batch_loop w d n (enumerate k bs) (Some v) s = (None, vs', s', l) \<Longrightarrow>
   append_calls s' = append_calls s @ map (\<lambda>x. Add_texts (map page_content x)) bs"
proof (induction bs arbitrary: k s vs' s' l)
  case Nil
  then show ?case by simp
next
  case (Cons b rest)
  obtain r1 s1 where f: "add_texts w (map page_content b) (map metadata b) s = (r1, s1)"
    by (cases "add_texts w (map page_content b) (map metadata b) s") auto
  show ?case
  proof (cases r1)
    case None
    obtain r2 vs2 s2 l2 where b: "batch_loop w d n (enumerate (Suc k) rest) (Some v) s1 = (r2, vs2, s2, l2)"
      by (metis prod_cases4)
    with Cons.prems f None have e: "r2 = None" "s' = s2" by (simp_all add: Let_def)
    from add_texts_cases [OF f] None
    have "append_calls s1 = append_calls s @ [Add_texts (map page_content b)]" by auto
    with Cons.IH [of "Suc k" s1 vs2 s2 l2] b e show ?thesis by simp
  next
    case (Some e)
    with Cons.prems f show ?thesis by (simp add: Let_def)
  qed
qed

lemma batch_loop_store_calls:
  assumes "batch_loop w d n (enumerate k bs) None s = (None, vs', s', l)"
  shows "append_calls s' = append_calls s @ expected_store_calls bs"
proof (cases bs)
  case Nil
  with assms show ?thesis by (simp add: expected_store_calls_def)
next
  case (Cons b rest)
  obtain r1 s1 where f: "from_texts w (map page_content b) (map metadata b) d s = (r1, s1)"
    by (cases "from_texts w (map page_content b) (map metadata b) d s") auto
  show ?thesis
  proof (cases r1)
    case (Inl e)
    with assms Cons f show ?thesis by (simp add: Let_def)
  next
    case (Inr v)
    obtain r2 vs2 s2 l2 where b: "batch_loop w d n (enumerate (Suc k) rest) (Some v) s1 = (r2, vs2, s2, l2)"
      by (metis prod_cases4)
    with assms Cons f Inr have e: "r2 = None" "s' = s2" by (simp_all add: Let_def)
    from from_texts_cases [OF f] Inr
    have "append_calls s1 = append_calls s @ [From_texts (map page_content b)]" by auto
    with batch_loop_add_calls [of w d n "Suc k" rest v s1 vs2 s2 l2] b e Cons
    show ?thesis by (simp add: expected_store_calls_def)
  qed
qed

lemma batch_loop_no_failures:
  assumes "\<forall>k. embed_fails w k = None" "\<forall>k. store_fails w k = None"
    "batch_loop w d n (enumerate k bs) vs s = (r, vs', s', l)"
  shows "r = None \<and> collection s' = collection s @ records_of w (concat bs) \<and>
    embed_calls s' = embed_calls s @ map (map page_content) bs \<and> l = batch_lines n k bs"
proof -
  from batch_loop_outcome [OF assms(3)] obtain j where j: "batch_outcome w n k bs s r s' l j" ..
  show ?thesis
  proof (cases r)
    case None
    with j show ?thesis by (simp add: batch_outcome_def)
  next
    case (Some e)
    with j assms(1,2) show ?thesis by (simp add: batch_outcome_def)
  qed
qed

lemma length_expected_store_calls: "length (expected_store_calls bs) = length bs"
  by (simp add: expected_store_calls_def split: list.splits)

subsection \<open>Evaluating a run in the example worlds\<close>

lemmas ingest_eval =
  ingest_documents_def ingest_body_def load_environment_def sample_world_def sample_environ_def
  env_missing_def getenv_def find_pdf_files_def text_splitter_of_def load_and_split_pdf_def
  embed_and_store_def process_documents_in_batches_def range_from.simps slice_def page_def
  from_texts_def add_texts_def embed_documents_def store_append_def add_metadata_def
  make_text_splitter_def makedirs_def enumerate_eq_zip Let_def

section \<open>Properties of the ingestion pipeline and the chat session\<close>

text \<open>
  Claim C1. When the configuration loads, the documents directory exists, the splitter
  is accepted (no larger overlap than chunk size), the batch size \<open>B\<close> is positive and
  none of the external calls fails (embeddings object, persistence directory, embedding
  calls, store writes, persist), an ingestion run over files that produce \<open>M\<close> chunks
  returns normally, issues
  exactly \<open>ceil(M/B)\<close> embedding calls (one per batch, with the texts of that batch) and
  exactly \<open>ceil(M/B)\<close> store writes (the first creating the collection, the rest
  appending), and the collection afterwards holds \<open>M\<close> records more than before.
\<close>

theorem ingest_call_counts:
  assumes cfg: "load_environment (environ w) = Inr cfg" and dir: "docs_dir_exists w"
    and spl: "splitter_rejects w (cfg_chunk_size cfg) (cfg_chunk_overlap cfg) = None"
    and ovl: "cfg_chunk_overlap cfg \<le> cfg_chunk_size cfg"
    and pos: "0 < cfg_batch_size cfg"
    and ini: "embeddings_init_fails w = None"
    and mk: "makedirs w (cfg_persist_dir cfg) = None"
    and ef: "\<forall>k. embed_fails w k = None" and sf: "\<forall>k. store_fails w k = None"
    and per: "persist_fails w = None"
    and run: "ingest_documents w s = (r, s', l)"
  shows "let all_documents = fst (load_all w (docs_glob w) (text_splitter_of cfg));
             M = length all_documents; B = nat (cfg_batch_size cfg)
         in r = Inr () \<and>
            length (embed_calls s') = length (embed_calls s) + (M + B - 1) div B \<and>
            length (append_calls s') = length (append_calls s) + (M + B - 1) div B \<and>
            (\<exists>batches. process_documents_in_batches all_documents (cfg_batch_size cfg) = Inr batches \<and>
               embed_calls s' = embed_calls s @ map (map page_content) batches \<and>
               append_calls s' = append_calls s @ expected_store_calls batches) \<and>
            length (collection s') = length (collection s) + M"
proof -
  define docs where "docs = fst (load_all w (docs_glob w) (text_splitter_of cfg))"
  define B where "B = nat (cfg_batch_size cfg)"
  define batches where "batches = map (\<lambda>i. slice docs i (i + B)) (range_from 0 (length docs) B)"
  have Bpos: "0 < B" using pos by (simp add: B_def)
  have pb: "process_documents_in_batches docs (cfg_batch_size cfg) = Inr batches"
    using pos by (simp add: process_batches_pos batches_def B_def)
  have len: "length batches = (length docs + B - 1) div B"
    using range_from_length [OF Bpos, of 0 "length docs"] by (simp add: batches_def)
  have cc: "concat batches = docs"
    using range_from_concat [OF Bpos, of docs 0] by (simp add: batches_def)
  have main: "r = Inr () \<and> embed_calls s' = embed_calls s @ map (map page_content) batches \<and>
     append_calls s' = append_calls s @ expected_store_calls batches \<and>
     collection s' = collection s @ records_of w docs"
  proof (cases "docs = []")
    case True
    then have b: "batches = []" by (simp add: batches_def range_from.simps [of 0])
    have "embed_and_store w cfg docs s = (Inr (), s, [Error_no_documents])"
      using True by (simp add: embed_and_store_def)
    then have "ingest_body w s = (Inr (), s, [Info_env_loaded, Info_found 0, Warning_no_pdf]) \<or>
        (\<exists>l0. ingest_body w s = (Inr (), s, l0))"
      using ingest_body_reach [OF cfg dir spl ovl, of s] by (simp add: docs_def)
    then obtain l0 where "ingest_body w s = (Inr (), s, l0)" by blast
    with run have "r = Inr ()" "s' = s" by (simp_all add: ingest_documents_def)
    with True b show ?thesis by (simp add: expected_store_calls_def records_of_def)
  next
    case False
    then have ne: "docs_glob w \<noteq> []" by (auto simp: docs_def)
    from False cc have bne: "batches \<noteq> []" by auto
    obtain r2 vs2 s2 l2 where
      b: "batch_loop w (cfg_persist_dir cfg) (length batches) (enumerate 0 batches) None s = (r2, vs2, s2, l2)"
      by (metis prod_cases4)
    from batch_loop_no_failures [OF ef sf b]
    have r2: "r2 = None" and c: "collection s2 = collection s @ records_of w (concat batches)"
      and e: "embed_calls s2 = embed_calls s @ map (map page_content) batches" by simp_all
    from b r2 have a: "append_calls s2 = append_calls s @ expected_store_calls batches"
      by (simp add: batch_loop_store_calls)
    from b r2 bne have v: "vs2 \<noteq> None" by (auto dest: batch_loop_handle)
    from v obtain v2 where v2: "vs2 = Some v2" by auto
    have "\<exists>l3. embed_and_store w cfg docs s = (Inr (), s2, l3)"
      using False pb b r2 v2 ini mk per by (simp add: embed_and_store_def Let_def)
    then obtain l3 where "embed_and_store w cfg docs s = (Inr (), s2, l3)" ..
    then have "\<exists>l0. ingest_body w s = (Inr (), s2, l0)"
      using ingest_body_reach [OF cfg dir spl ovl, of s] ne by (simp add: docs_def)
    then obtain l0 where "ingest_body w s = (Inr (), s2, l0)" ..
    with run have "r = Inr ()" "s' = s2" by (simp_all add: ingest_documents_def)
    with c e a cc show ?thesis by simp
  qed
  have "length (records_of w docs) = length docs" by (simp add: records_of_def)
  with main len have
    "r = Inr ()"
    "length (embed_calls s') = length (embed_calls s) + (length docs + B - 1) div B"
    "length (append_calls s') = length (append_calls s) + (length docs + B - 1) div B"
    "length (collection s') = length (collection s) + length docs"
    by (simp_all add: length_expected_store_calls)
  moreover from main pb have
    "\<exists>batches. process_documents_in_batches docs (cfg_batch_size cfg) = Inr batches \<and>
       embed_calls s' = embed_calls s @ map (map page_content) batches \<and>
       append_calls s' = append_calls s @ expected_store_calls batches"
    by blast
  ultimately show ?thesis
    unfolding Let_def docs_def [symmetric] B_def [symmetric] by (intro conjI)
qed

theorem ingest_call_counts_witness:
  "load_environment (environ sample_world) = Inr sample_config \<and>
   docs_dir_exists sample_world \<and>
   splitter_rejects sample_world (cfg_chunk_size sample_config) (cfg_chunk_overlap sample_config) = None \<and>
   cfg_chunk_overlap sample_config \<le> cfg_chunk_size sample_config \<and>
   0 < cfg_batch_size sample_config \<and>
   embeddings_init_fails sample_world = None \<and>
   makedirs sample_world (cfg_persist_dir sample_config) = None \<and>
   (\<forall>k. embed_fails sample_world k = None) \<and> (\<forall>k. store_fails sample_world k = None) \<and>
   persist_fails sample_world = None \<and>
   fst (ingest_documents sample_world seeded_store) = Inr () \<and>
   length (embed_calls (fst (snd (ingest_documents sample_world seeded_store)))) = 3 \<and>
   length (append_calls (fst (snd (ingest_documents sample_world seeded_store)))) = 3 \<and>
   length (collection (fst (snd (ingest_documents sample_world seeded_store)))) = 6"
proof -
  have cfg: "load_environment (environ sample_world) = Inr sample_config"
    by (simp add: load_environment_def sample_world_def sample_environ_def sample_config_def
        env_missing_def getenv_def)
  have dir: "docs_dir_exists sample_world" by (simp add: sample_world_def)
  have spl: "splitter_rejects sample_world (cfg_chunk_size sample_config)
      (cfg_chunk_overlap sample_config) = None"
    by (simp add: sample_world_def)
  have ovl: "cfg_chunk_overlap sample_config \<le> cfg_chunk_size sample_config"
    by (simp add: sample_config_def)
  have pos: "0 < cfg_batch_size sample_config" by (simp add: sample_config_def)
  have ini: "embeddings_init_fails sample_world = None" by (simp add: sample_world_def)
  have mk: "makedirs sample_world (cfg_persist_dir sample_config) = None"
    by (simp add: makedirs_def sample_world_def sample_config_def)
  have ef: "\<forall>k. embed_fails sample_world k = None" by (simp add: sample_world_def)
  have sf: "\<forall>k. store_fails sample_world k = None" by (simp add: sample_world_def)
  have per: "persist_fails sample_world = None" by (simp add: sample_world_def)
  obtain r s' l where run: "ingest_documents sample_world seeded_store = (r, s', l)"
    by (metis prod_cases3)
  have m: "length (fst (load_all sample_world (docs_glob sample_world)
      (text_splitter_of sample_config))) = 5"
    by (simp add: sample_world_def load_and_split_pdf_def)
  have b: "nat (cfg_batch_size sample_config) = 2" by (simp add: sample_config_def)
  have "((5::nat) + 2 - 1) div 2 = 3" by simp
  with ingest_call_counts [OF cfg dir spl ovl pos ini mk ef sf per run] m b
  have "r = Inr () \<and> length (embed_calls s') = length (embed_calls seeded_store) + 3 \<and>
    length (append_calls s') = length (append_calls seeded_store) + 3 \<and>
    length (collection s') = length (collection seeded_store) + 5"
    by (simp add: Let_def)
  with run cfg dir spl ovl pos ini mk ef sf per show ?thesis by (simp add: seeded_store_def)
qed

text \<open>
  Claim C2. For a positive batch size and calls that do not fail, the batches are
  consecutive pieces whose concatenation is the chunk sequence, and writing them in
  order leaves the collection with the records (and so the multiset of
  (text, metadata) pairs) that one unbounded embed-and-write call over the whole
  sequence leaves.
\<close>

theorem batching_preserves_content:
  assumes "0 < B" and "\<forall>k. embed_fails w k = None" and "\<forall>k. store_fails w k = None"
  shows "\<exists>batches vs s' l.
           process_documents_in_batches documents B = Inr batches \<and>
           concat batches = documents \<and>
           batch_loop w d (length batches) (enumerate 0 batches) None s = (None, vs, s', l) \<and>
           collection s' = collection (snd (single_unbounded_call w documents d s)) \<and>
           indexed_content s' = indexed_content (snd (single_unbounded_call w documents d s))"
proof -
  define batches where
    "batches = map (\<lambda>i. slice documents i (i + nat B)) (range_from 0 (length documents) (nat B))"
  have pb: "process_documents_in_batches documents B = Inr batches"
    using assms(1) by (simp add: process_batches_pos batches_def)
  have cc: "concat batches = documents"
    using assms(1) range_from_concat [of "nat B" documents 0] by (simp add: batches_def)
  obtain r vs s' l where
    b: "batch_loop w d (length batches) (enumerate 0 batches) None s = (r, vs, s', l)"
    by (metis prod_cases4)
  from batch_loop_no_failures [OF assms(2,3) b] cc
  have r: "r = None" and c: "collection s' = collection s @ records_of w documents" by simp_all
  obtain r1 s1 where
    f: "from_texts w (map page_content documents) (map metadata documents) d s = (r1, s1)"
    by (cases "from_texts w (map page_content documents) (map metadata documents) d s") auto
  from from_texts_cases [OF f] assms(2,3)
  have "collection s1 = collection s @ records_of w documents" by auto
  with f have "collection (snd (single_unbounded_call w documents d s)) =
      collection s @ records_of w documents"
    by (simp add: single_unbounded_call_def)
  with c have "collection s' = collection (snd (single_unbounded_call w documents d s))" by simp
  moreover from this
  have "indexed_content s' = indexed_content (snd (single_unbounded_call w documents d s))"
    by (simp add: indexed_content_def)
  ultimately show ?thesis using pb cc b r by blast
qed

theorem batching_preserves_content_witness:
  "(0::int) < 2 \<and> (\<forall>k. embed_fails sample_world k = None) \<and>
   (\<forall>k. store_fails sample_world k = None) \<and>
   (\<exists>batches vs s' l.
      process_documents_in_batches [page ''one'', page ''two'', page ''three''] 2 = Inr batches \<and>
      concat batches = [page ''one'', page ''two'', page ''three''] \<and>
      batch_loop sample_world ''db'' (length batches) (enumerate 0 batches) None seeded_store
        = (None, vs, s', l) \<and>
      collection s' = collection (snd (single_unbounded_call sample_world
         [page ''one'', page ''two'', page ''three''] ''db'' seeded_store)) \<and>
      indexed_content s' = indexed_content (snd (single_unbounded_call sample_world
         [page ''one'', page ''two'', page ''three''] ''db'' seeded_store)))"
proof -
  have pos: "(0::int) < 2" by simp
  have ef: "\<forall>k. embed_fails sample_world k = None" by (simp add: sample_world_def)
  have sf: "\<forall>k. store_fails sample_world k = None" by (simp add: sample_world_def)
  from batching_preserves_content [OF pos ef sf] pos ef sf show ?thesis by blast
qed

text \<open>
  Claim C3, as the code has it. Suppose the run reaches the batch loop (the
  configuration loads, the directory exists, the splitter is accepted, the embeddings
  object and the persistence directory are created), the calls of the first \<open>j\<close> batches
  succeed, and the embedding call or the store write of batch \<open>j\<close> raises \<open>e\<close>. Then the
  run is aborted: \<open>ingest_documents\<close> logs \<open>e\<close> and raises it again unchanged, the
  collection holds the records of the \<open>j\<close> earlier batches and nothing of batch \<open>j\<close> or
  later, and no batch after \<open>j\<close> is embedded or announced in the log. The number of
  completed batches is not part of what is raised or returned; it can be read from the
  ``Processing batch'' lines, of which there are \<open>j + 1\<close>.
\<close>

theorem batch_failure_aborts_run:
  assumes cfg: "load_environment (environ w) = Inr cfg" and dir: "docs_dir_exists w"
    and spl: "splitter_rejects w (cfg_chunk_size cfg) (cfg_chunk_overlap cfg) = None"
    and ovl: "cfg_chunk_overlap cfg \<le> cfg_chunk_size cfg"
    and ini: "embeddings_init_fails w = None"
    and mk: "makedirs w (cfg_persist_dir cfg) = None"
    and pb: "process_documents_in_batches
           (fst (load_all w (docs_glob w) (text_splitter_of cfg))) (cfg_batch_size cfg) = Inr batches"
    and j: "j < length batches"
    and before: "\<forall>i<j. embed_fails w (length (embed_calls s) + i) = None \<and>
                      store_fails w (length (append_calls s) + i) = None"
    and fails: "embed_fails w (length (embed_calls s) + j) = Some e \<or>
                (embed_fails w (length (embed_calls s) + j) = None \<and>
                 store_fails w (length (append_calls s) + j) = Some e)"
  shows "\<exists>s' l.
           ingest_documents w s = (Inl e, s', l) \<and>
           collection s' = collection s @ records_of w (concat (take j batches)) \<and>
           embed_calls s' = embed_calls s @ map (map page_content) (take (j + 1) batches) \<and>
           filter is_batch_line l = batch_lines (length batches) 0 (take (j + 1) batches) \<and>
           last l = Error_ingestion_failed e"
proof -
  define docs where "docs = fst (load_all w (docs_glob w) (text_splitter_of cfg))"
  define l2 where "l2 = snd (load_all w (docs_glob w) (text_splitter_of cfg))"
  have pb': "process_documents_in_batches docs (cfg_batch_size cfg) = Inr batches"
    using pb by (simp add: docs_def)
  from j have bne: "batches \<noteq> []" by auto
  have dne: "docs \<noteq> []"
  proof
    assume "docs = []"
    with pb' have "batches = []"
      by (auto simp: process_documents_in_batches_def range_from.simps [of 0] split: if_splits)
    with bne show False by simp
  qed
  then have ne: "docs_glob w \<noteq> []" by (auto simp: docs_def)
  from batch_loop_fails_at [OF j before fails, of "cfg_persist_dir cfg" "length batches" 0 None]
  obtain vs' s' where
    loop: "batch_loop w (cfg_persist_dir cfg) (length batches) (enumerate 0 batches) None s =
        (Some e, vs', s', batch_lines (length batches) 0 (take (j + 1) batches))"
    and c: "collection s' = collection s @ records_of w (concat (take j batches))"
    and ec: "embed_calls s' = embed_calls s @ map (map page_content) (take (j + 1) batches)"
    by blast
  define l3 where
    "l3 = [Info_total (length docs), Info_embeddings_initialized, Info_num_batches (length batches)] @
          batch_lines (length batches) 0 (take (j + 1) batches)"
  have es: "embed_and_store w cfg docs s = (Inl e, s', l3)"
    using dne ini mk pb' loop by (simp add: embed_and_store_def Let_def l3_def)
  have body: "ingest_body w s =
      (Inl e, s', Info_env_loaded # Info_found (length (docs_glob w)) # l2 @ l3)"
    using ingest_body_reach [OF cfg dir spl ovl, of s] ne es by (simp add: docs_def l2_def)
  define l where
    "l = Info_starting # (Info_env_loaded # Info_found (length (docs_glob w)) # l2 @ l3) @
         [Error_ingestion_failed e]"
  have run: "ingest_documents w s = (Inl e, s', l)"
    using body by (simp add: ingest_documents_def l_def)
  have "filter is_batch_line l2 = []" by (simp add: l2_def load_all_no_batch_line)
  then have "filter is_batch_line l = batch_lines (length batches) 0 (take (j + 1) batches)"
    by (simp add: l_def l3_def batch_lines_filter)
  moreover have "last l = Error_ingestion_failed e" by (simp add: l_def)
  ultimately show ?thesis using run c ec by blast
qed

theorem batch_failure_aborts_run_witness:
  "load_environment (environ store_fail_world) = Inr sample_config \<and>
   docs_dir_exists store_fail_world \<and>
   splitter_rejects store_fail_world (cfg_chunk_size sample_config)
     (cfg_chunk_overlap sample_config) = None \<and>
   cfg_chunk_overlap sample_config \<le> cfg_chunk_size sample_config \<and>
   embeddings_init_fails store_fail_world = None \<and>
   makedirs store_fail_world (cfg_persist_dir sample_config) = None \<and>
   embed_fails store_fail_world (length (embed_calls seeded_store) + 0) = None \<and>
   store_fails store_fail_world (length (append_calls seeded_store) + 0) = None \<and>
   embed_fails store_fail_world (length (embed_calls seeded_store) + 1) = None \<and>
   store_fails store_fail_world (length (append_calls seeded_store) + 1)
     = Some (ProviderError ''disk full'') \<and>
   fst (ingest_documents store_fail_world seeded_store) = Inl (ProviderError ''disk full'') \<and>
   length (collection (fst (snd (ingest_documents store_fail_world seeded_store)))) = 3 \<and>
   length (embed_calls (fst (snd (ingest_documents store_fail_world seeded_store)))) = 2 \<and>
   length (filter is_batch_line (snd (snd (ingest_documents store_fail_world seeded_store)))) = 2 \<and>
   last (snd (snd (ingest_documents store_fail_world seeded_store)))
     = Error_ingestion_failed (ProviderError ''disk full'')"
proof -
  have cfg: "load_environment (environ store_fail_world) = Inr sample_config"
    by (simp add: load_environment_def store_fail_world_def sample_world_def sample_environ_def
        sample_config_def env_missing_def getenv_def)
  have dir: "docs_dir_exists store_fail_world"
    by (simp add: store_fail_world_def sample_world_def)
  have spl: "splitter_rejects store_fail_world (cfg_chunk_size sample_config)
      (cfg_chunk_overlap sample_config) = None"
    by (simp add: store_fail_world_def sample_world_def)
  have ovl: "cfg_chunk_overlap sample_config \<le> cfg_chunk_size sample_config"
    by (simp add: sample_config_def)
  have ini: "embeddings_init_fails store_fail_world = None"
    by (simp add: store_fail_world_def sample_world_def)
  have mk: "makedirs store_fail_world (cfg_persist_dir sample_config) = None"
    by (simp add: makedirs_def store_fail_world_def sample_world_def sample_config_def)
  define docs where
    "docs = fst (load_all store_fail_world (docs_glob store_fail_world) (text_splitter_of sample_config))"
  have len: "length docs = 5"
    by (simp add: docs_def store_fail_world_def sample_world_def load_and_split_pdf_def)
  define batches where
    "batches = map (\<lambda>i. slice docs i (i + 2)) (range_from 0 (length docs) 2)"
  have pb: "process_documents_in_batches docs (cfg_batch_size sample_config) = Inr batches"
    by (simp add: process_documents_in_batches_def sample_config_def batches_def)
  have bs: "batches = [slice docs 0 2, slice docs 2 4, slice docs 4 6]"
    by (simp add: batches_def len range_from.simps) (simp add: eval_nat_numeral)
  have j: "1 < length batches" by (simp add: bs)
  have before: "\<forall>i<1. embed_fails store_fail_world (length (embed_calls seeded_store) + i) = None \<and>
      store_fails store_fail_world (length (append_calls seeded_store) + i) = None"
    by (simp add: store_fail_world_def sample_world_def seeded_store_def)
  have e1: "embed_fails store_fail_world (length (embed_calls seeded_store) + 1) = None"
    by (simp add: store_fail_world_def sample_world_def)
  have s1: "store_fails store_fail_world (length (append_calls seeded_store) + 1)
      = Some (ProviderError ''disk full'')"
    by (simp add: store_fail_world_def seeded_store_def)
  from e1 s1 have fails:
    "embed_fails store_fail_world (length (embed_calls seeded_store) + 1) = Some (ProviderError ''disk full'') \<or>
     (embed_fails store_fail_world (length (embed_calls seeded_store) + 1) = None \<and>
      store_fails store_fail_world (length (append_calls seeded_store) + 1) = Some (ProviderError ''disk full''))"
    by simp
  from batch_failure_aborts_run [OF cfg dir spl ovl ini mk pb [unfolded docs_def] j before fails]
  obtain s' l where run: "ingest_documents store_fail_world seeded_store = (Inl (ProviderError ''disk full''), s', l)"
    and c: "collection s' = collection seeded_store @ records_of store_fail_world (concat (take 1 batches))"
    and ec: "embed_calls s' = embed_calls seeded_store @ map (map page_content) (take (1 + 1) batches)"
    and bl: "filter is_batch_line l = batch_lines (length batches) 0 (take (1 + 1) batches)"
    and la: "last l = Error_ingestion_failed (ProviderError ''disk full'')"
    by blast
  from c ec bl have "length (collection s') = 3" "length (embed_calls s') = 2"
    "length (filter is_batch_line l) = 2"
    by (simp_all add: bs len records_of_def seeded_store_def batch_lines_def slice_def)
  moreover have "embed_fails store_fail_world (length (embed_calls seeded_store) + 0) = None"
    "store_fails store_fail_world (length (append_calls seeded_store) + 0) = None"
    by (simp_all add: store_fail_world_def sample_world_def seeded_store_def)
  ultimately show ?thesis using run la cfg dir spl ovl ini mk e1 s1 by simp
qed

text \<open>
  Counterexample to C3 as stated: two runs over the same files, one failing in its
  first batch and one in its second, raise the same value although no batch, respectively
  one batch of two chunks, had been written; what \<open>ingest_documents\<close> raises or returns
  carries no count of completed work.
\<close>

theorem ingest_reports_no_count_counterexample:
  "fst (ingest_documents fail_first_world empty_store) = Inl (ProviderError ''rate limit'') \<and>
   fst (ingest_documents fail_second_world empty_store) = Inl (ProviderError ''rate limit'') \<and>
   length (collection (fst (snd (ingest_documents fail_first_world empty_store)))) = 0 \<and>
   length (collection (fst (snd (ingest_documents fail_second_world empty_store)))) = 2"
  by (simp add: ingest_eval fail_first_world_def fail_second_world_def empty_store_def)

text \<open>
  Claim C4. A document whose loading or chunking fails is caught inside
  \<open>load_and_split_pdf\<close>: it contributes no chunk, the failure is logged, the chunks of
  the other documents are collected as if the document were absent, and the run goes on
  to embed and store exactly those chunks; what the run returns or raises is what that
  embedding and storing returns or raises. (The run reaches the loading loop when the
  configuration loads, the directory exists and the splitter is accepted.)
\<close>

theorem failed_document_is_skipped:
  assumes "load_environment (environ w) = Inr cfg" and "docs_dir_exists w"
    and "splitter_rejects w (cfg_chunk_size cfg) (cfg_chunk_overlap cfg) = None"
    and "cfg_chunk_overlap cfg \<le> cfg_chunk_size cfg"
    and "docs_glob w = ps @ p # qs"
    and "pdf_load_and_split w p (text_splitter_of cfg) = Inl e"
  shows "fst (load_and_split_pdf w p (text_splitter_of cfg)) = [] \<and>
         fst (load_all w (docs_glob w) (text_splitter_of cfg)) =
           fst (load_all w ps (text_splitter_of cfg)) @ fst (load_all w qs (text_splitter_of cfg)) \<and>
         Error_processing (path_name p) e \<in> set (snd (snd (ingest_documents w s))) \<and>
         fst (ingest_documents w s) =
           fst (embed_and_store w cfg
                  (fst (load_all w ps (text_splitter_of cfg)) @
                   fst (load_all w qs (text_splitter_of cfg))) s) \<and>
         fst (snd (ingest_documents w s)) =
           fst (snd (embed_and_store w cfg
                  (fst (load_all w ps (text_splitter_of cfg)) @
                   fst (load_all w qs (text_splitter_of cfg))) s))"
proof -
  let ?sp = "text_splitter_of cfg"
  let ?docs = "fst (load_all w ps ?sp) @ fst (load_all w qs ?sp)"
  have one: "load_and_split_pdf w p ?sp =
      ([], [Info_processing (path_name p), Error_processing (path_name p) e])"
    using assms(6) by (simp add: load_and_split_pdf_def)
  have "load_all w (p # qs) ?sp =
      (fst (load_all w qs ?sp),
       [Info_processing (path_name p), Error_processing (path_name p) e] @ snd (load_all w qs ?sp))"
    using one by (simp split: prod.splits)
  then have all: "fst (load_all w (docs_glob w) ?sp) = ?docs"
    and logged: "Error_processing (path_name p) e \<in> set (snd (load_all w (docs_glob w) ?sp))"
    using assms(5) by (simp_all add: load_all_append)
  obtain r s' l3 where es: "embed_and_store w cfg ?docs s = (r, s', l3)" by (metis prod_cases3)
  from assms(5) have ne: "docs_glob w \<noteq> []" by simp
  have body: "ingest_body w s =
      (r, s', Info_env_loaded # Info_found (length (docs_glob w)) #
         snd (load_all w (docs_glob w) ?sp) @ l3)"
    using ingest_body_reach [OF assms(1,2,3,4), of s] ne es all by simp
  have "fst (ingest_documents w s) = r" "fst (snd (ingest_documents w s)) = s'"
    "Error_processing (path_name p) e \<in> set (snd (snd (ingest_documents w s)))"
    using body logged by (cases r; simp add: ingest_documents_def)+
  with one all es show ?thesis by simp
qed

theorem failed_document_is_skipped_witness:
  "load_environment (environ sample_world) = Inr sample_config \<and>
   docs_dir_exists sample_world \<and>
   splitter_rejects sample_world (cfg_chunk_size sample_config) (cfg_chunk_overlap sample_config) = None \<and>
   cfg_chunk_overlap sample_config \<le> cfg_chunk_size sample_config \<and>
   docs_glob sample_world = [''docs/a.pdf''] @ ''docs/bad.pdf'' # [''docs/b.pdf''] \<and>
   pdf_load_and_split sample_world ''docs/bad.pdf'' (text_splitter_of sample_config)
     = Inl (ProviderError ''unreadable'') \<and>
   fst (load_and_split_pdf sample_world ''docs/bad.pdf'' (text_splitter_of sample_config)) = [] \<and>
   length (fst (load_all sample_world (docs_glob sample_world) (text_splitter_of sample_config))) = 5 \<and>
   Error_processing ''bad.pdf'' (ProviderError ''unreadable'')
     \<in> set (snd (snd (ingest_documents sample_world empty_store)))"
proof -
  have cfg: "load_environment (environ sample_world) = Inr sample_config"
    by (simp add: load_environment_def sample_world_def sample_environ_def sample_config_def
        env_missing_def getenv_def)
  have dir: "docs_dir_exists sample_world" by (simp add: sample_world_def)
  have spl: "splitter_rejects sample_world (cfg_chunk_size sample_config)
      (cfg_chunk_overlap sample_config) = None"
    by (simp add: sample_world_def)
  have ovl: "cfg_chunk_overlap sample_config \<le> cfg_chunk_size sample_config"
    by (simp add: sample_config_def)
  have glob: "docs_glob sample_world = [''docs/a.pdf''] @ ''docs/bad.pdf'' # [''docs/b.pdf'']"
    by (simp add: sample_world_def)
  have bad: "pdf_load_and_split sample_world ''docs/bad.pdf'' (text_splitter_of sample_config)
      = Inl (ProviderError ''unreadable'')"
    by (simp add: sample_world_def)
  have n: "path_name ''docs/bad.pdf'' = ''bad.pdf''" by (simp add: path_name_def)
  have a: "length (fst (load_all sample_world [''docs/a.pdf''] (text_splitter_of sample_config))) = 3"
    by (simp add: sample_world_def load_and_split_pdf_def)
  have b: "length (fst (load_all sample_world [''docs/b.pdf''] (text_splitter_of sample_config))) = 2"
    by (simp add: sample_world_def load_and_split_pdf_def)
  from failed_document_is_skipped [OF cfg dir spl ovl glob bad, of empty_store] a b n
  have "fst (load_and_split_pdf sample_world ''docs/bad.pdf'' (text_splitter_of sample_config)) = []"
    "length (fst (load_all sample_world (docs_glob sample_world) (text_splitter_of sample_config))) = 5"
    "Error_processing ''bad.pdf'' (ProviderError ''unreadable'')
       \<in> set (snd (snd (ingest_documents sample_world empty_store)))"
    by simp_all
  with cfg dir spl ovl glob bad show ?thesis by blast
qed

text \<open>
  Claim C5, as the code has it. ingest.py does not compare the overlap with the chunk
  size itself; the comparison is the splitter constructor's, made after the
  configuration is loaded and the PDF files are listed. When the configuration loads,
  the documents directory exists and holds at least one PDF file, and the configured
  overlap is larger than the chunk size, the constructor raises and the run raises that
  error before any document is loaded: nothing is embedded or written and the log has
  no line of a processed document. Unless an earlier argument check of the constructor
  raises first, the error is the \<open>ValueError\<close> about the larger overlap.
\<close>

theorem larger_overlap_fails_fast:
  assumes "load_environment (environ w) = Inr cfg" and "docs_dir_exists w"
    and "docs_glob w \<noteq> []"
    and "cfg_chunk_size cfg < cfg_chunk_overlap cfg"
  shows "\<exists>e. make_text_splitter w cfg = Inl e \<and>
           ingest_documents w s =
             (Inl e, s,
              [Info_starting, Info_env_loaded, Info_found (length (docs_glob w)),
               Error_ingestion_failed e]) \<and>
           (splitter_rejects w (cfg_chunk_size cfg) (cfg_chunk_overlap cfg) = None \<longrightarrow>
              e = ValueError (overlap_message (cfg_chunk_overlap cfg) (cfg_chunk_size cfg)))"
proof (cases "splitter_rejects w (cfg_chunk_size cfg) (cfg_chunk_overlap cfg)")
  case None
  with assms show ?thesis
    by (simp add: ingest_documents_def ingest_body_def find_pdf_files_def make_text_splitter_def)
next
  case (Some e)
  with assms show ?thesis
    by (simp add: ingest_documents_def ingest_body_def find_pdf_files_def make_text_splitter_def)
qed

theorem larger_overlap_fails_fast_witness:
  "load_environment (environ larger_overlap_world) = Inr (sample_config\<lparr>cfg_chunk_overlap := 30\<rparr>) \<and>
   docs_dir_exists larger_overlap_world \<and>
   docs_glob larger_overlap_world \<noteq> [] \<and>
   cfg_chunk_size (sample_config\<lparr>cfg_chunk_overlap := 30\<rparr>)
     < cfg_chunk_overlap (sample_config\<lparr>cfg_chunk_overlap := 30\<rparr>) \<and>
   ingest_documents larger_overlap_world seeded_store =
     (Inl (ValueError ''Got a larger chunk overlap (30) than chunk size (20), should be smaller.''),
      seeded_store,
      [Info_starting, Info_env_loaded, Info_found 3,
       Error_ingestion_failed
         (ValueError ''Got a larger chunk overlap (30) than chunk size (20), should be smaller.'')])"
proof -
  let ?cfg = "sample_config\<lparr>cfg_chunk_overlap := 30\<rparr>"
  have cfg: "load_environment (environ larger_overlap_world) = Inr ?cfg"
    by (simp add: load_environment_def larger_overlap_world_def sample_environ_def
        sample_config_def env_missing_def getenv_def)
  have dir: "docs_dir_exists larger_overlap_world"
    by (simp add: larger_overlap_world_def sample_world_def)
  have ne: "docs_glob larger_overlap_world \<noteq> []"
    by (simp add: larger_overlap_world_def sample_world_def)
  have lt: "cfg_chunk_size ?cfg < cfg_chunk_overlap ?cfg" by (simp add: sample_config_def)
  have n: "length (docs_glob larger_overlap_world) = 3"
    by (simp add: larger_overlap_world_def sample_world_def)
  have other: "splitter_rejects larger_overlap_world (cfg_chunk_size ?cfg) (cfg_chunk_overlap ?cfg) = None"
    by (simp add: larger_overlap_world_def sample_world_def)
  have msg: "overlap_message (cfg_chunk_overlap ?cfg) (cfg_chunk_size ?cfg)
      = ''Got a larger chunk overlap (30) than chunk size (20), should be smaller.''"
    by (simp add: overlap_message_def sample_config_def str_int_def str_nat.simps digit_char_def)
  from larger_overlap_fails_fast [OF cfg dir ne lt, of seeded_store] n other msg cfg dir ne lt
  show ?thesis by auto
qed

text \<open>
  Counterexample to C5 as stated, in two configurations with the overlap not smaller
  than the chunk size. With overlap 30, chunk size 20 and no PDF file in the
  directory, the run returns normally at line 123 and raises nothing. With overlap 20
  equal to the chunk size and the three example files, the constructor accepts and the
  run ingests all five chunks.
\<close>

theorem overlap_not_checked_counterexample:
  "load_environment (environ no_pdf_world) = Inr (sample_config\<lparr>cfg_chunk_overlap := 30\<rparr>) \<and>
   cfg_chunk_size (sample_config\<lparr>cfg_chunk_overlap := 30\<rparr>)
     \<le> cfg_chunk_overlap (sample_config\<lparr>cfg_chunk_overlap := 30\<rparr>) \<and>
   fst (ingest_documents no_pdf_world empty_store) = Inr () \<and>
   load_environment (environ equal_overlap_world) = Inr (sample_config\<lparr>cfg_chunk_overlap := 20\<rparr>) \<and>
   cfg_chunk_size (sample_config\<lparr>cfg_chunk_overlap := 20\<rparr>)
     \<le> cfg_chunk_overlap (sample_config\<lparr>cfg_chunk_overlap := 20\<rparr>) \<and>
   fst (ingest_documents equal_overlap_world empty_store) = Inr () \<and>
   length (collection (fst (snd (ingest_documents equal_overlap_world empty_store)))) = 5"
  by (simp add: ingest_eval no_pdf_world_def equal_overlap_world_def sample_config_def
      empty_store_def)

text \<open>
  Claim C6, as the code has it. When a document loads into \<open>pages\<close>, the chunk at index
  \<open>i\<close> keeps its text and carries the 1-based ordinal \<open>i + 1\<close> as \<open>page_number\<close>, the
  file name, the source path, and the identifier made of the file name's stem, the text
  \<open>_page_\<close> and the ordinal in decimal.
\<close>

theorem chunk_metadata:
  assumes "pdf_load_and_split w p sp = Inr pages" and "i < length pages"
  shows "length (fst (load_and_split_pdf w p sp)) = length pages \<and>
         page_content (fst (load_and_split_pdf w p sp) ! i) = page_content (pages ! i) \<and>
         metadata (fst (load_and_split_pdf w p sp) ! i) ''page_number'' = Some (VInt (int i + 1)) \<and>
         metadata (fst (load_and_split_pdf w p sp) ! i) ''chunk_id'' =
           Some (VStr (path_stem p @ ''_page_'' @ str_int (int i + 1))) \<and>
         metadata (fst (load_and_split_pdf w p sp) ! i) ''filename'' = Some (VStr (path_name p)) \<and>
         metadata (fst (load_and_split_pdf w p sp) ! i) ''source_path'' = Some (VStr p)"
  using assms
  by (simp add: load_and_split_pdf_def add_metadata_def nth_enumerate_eq)

theorem chunk_metadata_witness:
  "pdf_load_and_split sample_world ''docs/a.pdf'' (text_splitter_of sample_config)
     = Inr [page ''one'', page ''two'', page ''three''] \<and>
   (1::nat) < length [page ''one'', page ''two'', page ''three''] \<and>
   page_content (fst (load_and_split_pdf sample_world ''docs/a.pdf'' (text_splitter_of sample_config)) ! 1)
     = ''two'' \<and>
   metadata (fst (load_and_split_pdf sample_world ''docs/a.pdf'' (text_splitter_of sample_config)) ! 1)
     ''page_number'' = Some (VInt 2) \<and>
   metadata (fst (load_and_split_pdf sample_world ''docs/a.pdf'' (text_splitter_of sample_config)) ! 1)
     ''chunk_id'' = Some (VStr ''a_page_2'')"
proof -
  have l: "pdf_load_and_split sample_world ''docs/a.pdf'' (text_splitter_of sample_config)
     = Inr [page ''one'', page ''two'', page ''three'']"
    by (simp add: sample_world_def)
  have i: "(1::nat) < length [page ''one'', page ''two'', page ''three'']" by simp
  have st: "path_stem ''docs/a.pdf'' = ''a''"
    by (simp add: path_stem_def path_name_def rfind_dot_def)
  have n: "str_int (int 1 + 1) = ''2''"
    by (simp add: str_int_def str_nat.simps digit_char_def)
  from chunk_metadata [OF l i] st n l i show ?thesis by (simp add: page_def)
qed

text \<open>
  Counterexample to C6 as stated: the first chunk of \<open>docs/a.pdf\<close> has the identifier
  \<open>a_page_1\<close>, which is not the stem, an underscore and the ordinal.
\<close>

theorem chunk_id_counterexample:
  "metadata (hd (fst (load_and_split_pdf sample_world ''docs/a.pdf'' (text_splitter_of sample_config))))
     ''chunk_id'' = Some (VStr ''a_page_1'') \<and>
   Some (VStr ''a_page_1'') \<noteq> Some (VStr (path_stem ''docs/a.pdf'' @ ''_'' @ str_int 1))"
  by (simp add: sample_world_def load_and_split_pdf_def add_metadata_def page_def
      path_stem_def path_name_def rfind_dot_def str_int_def str_nat.simps digit_char_def)

text \<open>
  Claim C7. When the collection reports a count of zero, the session never starts:
  whatever the user would type, \<open>chat_loop\<close> ends with exit status 1 before a chain or
  its memory exists, so no question is answered and no turn is recorded. With the
  credential set and the directory present, the error is the \<open>ValueError\<close> that
  \<open>initialize_vectorstore\<close> raises for an empty index, and its message tells the user to
  run ingest.py first.
\<close>

theorem empty_index_rejects_queries:
  assumes "collection_count w = 0"
  shows "(\<exists>e. chat_loop w inputs = (1, None, [Print_init_failed e])) \<and>
         (\<forall>cfg. chat_load_environment (chat_environ w) = Inr cfg \<and> persist_dir_exists w \<longrightarrow>
            initialize_vectorstore w cfg = Inl (ValueError empty_index_message) \<and>
            chat_loop w inputs = (1, None, [Print_init_failed (ValueError empty_index_message)])) \<and>
         empty_index_message =
           ''No documents found in the knowledge base. Please '' @ ''run ingest.py first'' @
           '' to populate the database.''"
  using assms
  by (auto simp: chat_loop_def initialize_vectorstore_def empty_index_message_def
      split: sum.splits)

theorem empty_index_rejects_queries_witness:
  "collection_count (sample_chat_world\<lparr>collection_count := 0\<rparr>) = 0 \<and>
   chat_load_environment (chat_environ (sample_chat_world\<lparr>collection_count := 0\<rparr>))
     = Inr sample_chat_config \<and>
   persist_dir_exists (sample_chat_world\<lparr>collection_count := 0\<rparr>) \<and>
   chat_loop (sample_chat_world\<lparr>collection_count := 0\<rparr>) [Line ''What is in the corpus?'']
     = (1, None, [Print_init_failed (ValueError empty_index_message)])"
proof -
  let ?w = "sample_chat_world\<lparr>collection_count := 0\<rparr>"
  have c: "collection_count ?w = 0" by simp
  have cfg: "chat_load_environment (chat_environ ?w) = Inr sample_chat_config"
    by (simp add: chat_load_environment_def sample_chat_world_def sample_chat_config_def
        env_missing_def getenv_def)
  have dir: "persist_dir_exists ?w" by (simp add: sample_chat_world_def)
  from empty_index_rejects_queries [OF c, of "[Line ''What is in the corpus?'']"] cfg dir c
  show ?thesis by blast
qed

text \<open>
  Claim C8. Citation formatting deduplicates the retrieved chunks by the pair
  (filename, page) and keeps the order in which the pairs are first seen: when the
  documents cite the pairs \<open>ps\<close>, the result lists the renderings of \<open>first_seen ps\<close>.
  It is idempotent: pairs that are already distinct are all listed as they are, and
  documents citing the deduplicated pairs are formatted to the same string.
\<close>

theorem format_sources_dedup:
  assumes "list_all2 cites docs ps"
  shows "format_sources docs =
           (if ps = [] then ''No sources found.''
            else ''Sources: '' @ join '', '' (map render_citation (first_seen ps))) \<and>
         (distinct ps \<longrightarrow> citation_loop docs [] {} = map render_citation ps) \<and>
         (\<forall>docs'. list_all2 cites docs' (first_seen ps) \<longrightarrow>
            format_sources docs' = format_sources docs)"
proof -
  have key: "format_sources ds =
           (if qs = [] then ''No sources found.''
            else ''Sources: '' @ join '', '' (map render_citation (first_seen qs))) \<and>
           citation_loop ds [] {} = map render_citation (first_seen qs)"
    if "list_all2 cites ds qs" for ds qs
  proof -
    from that have "map (\<lambda>d. source_info (metadata d)) ds = map render_citation qs"
      by (induction rule: list_all2_induct)
         (auto simp: cites_def source_info_def dict_get_def render_citation_def)
    then have "citation_loop ds [] {} = map render_citation (first_seen qs)"
      by (simp add: citation_loop_first_seen first_seen_map_inj render_citation_inj)
    moreover from that have "ds = [] \<longleftrightarrow> qs = []" by (auto simp: list_all2_Nil list_all2_Nil2)
    ultimately show ?thesis by (simp add: format_sources_def)
  qed
  have idem: "first_seen (first_seen ps) = first_seen ps"
    by (simp add: first_seen_distinct first_seen_def)
  have empty: "first_seen ps = [] \<longleftrightarrow> ps = []" by (simp add: first_seen_def)
  from key [OF assms] have "format_sources docs =
           (if ps = [] then ''No sources found.''
            else ''Sources: '' @ join '', '' (map render_citation (first_seen ps)))"
    and loop: "citation_loop docs [] {} = map render_citation (first_seen ps)" by simp_all
  moreover from loop have "distinct ps \<longrightarrow> citation_loop docs [] {} = map render_citation ps"
    by (simp add: first_seen_distinct)
  moreover have "format_sources docs' = format_sources docs"
    if "list_all2 cites docs' (first_seen ps)" for docs'
    using key [OF that] key [OF assms] by (simp add: idem empty)
  ultimately show ?thesis by blast
qed

theorem format_sources_dedup_witness:
  "list_all2 cites
     [\<lparr>page_content = ''x'', metadata = [''filename'' \<mapsto> VStr ''a.txt'', ''page_number'' \<mapsto> VInt 1]\<rparr>,
      \<lparr>page_content = ''y'', metadata = [''filename'' \<mapsto> VStr ''b.txt'', ''page_number'' \<mapsto> VInt 2]\<rparr>,
      \<lparr>page_content = ''z'', metadata = [''filename'' \<mapsto> VStr ''a.txt'', ''page_number'' \<mapsto> VInt 1]\<rparr>]
     [(''a.txt'', 1), (''b.txt'', 2), (''a.txt'', 1)] \<and>
   format_sources
     [\<lparr>page_content = ''x'', metadata = [''filename'' \<mapsto> VStr ''a.txt'', ''page_number'' \<mapsto> VInt 1]\<rparr>,
      \<lparr>page_content = ''y'', metadata = [''filename'' \<mapsto> VStr ''b.txt'', ''page_number'' \<mapsto> VInt 2]\<rparr>,
      \<lparr>page_content = ''z'', metadata = [''filename'' \<mapsto> VStr ''a.txt'', ''page_number'' \<mapsto> VInt 1]\<rparr>]
   = ''Sources: a.txt (page 1), b.txt (page 2)''"
proof -
  have h: "list_all2 cites
     [\<lparr>page_content = ''x'', metadata = [''filename'' \<mapsto> VStr ''a.txt'', ''page_number'' \<mapsto> VInt 1]\<rparr>,
      \<lparr>page_content = ''y'', metadata = [''filename'' \<mapsto> VStr ''b.txt'', ''page_number'' \<mapsto> VInt 2]\<rparr>,
      \<lparr>page_content = ''z'', metadata = [''filename'' \<mapsto> VStr ''a.txt'', ''page_number'' \<mapsto> VInt 1]\<rparr>]
     [(''a.txt'', 1), (''b.txt'', 2), (''a.txt'', 1)]"
    by (simp add: cites_def)
  have "first_seen [(''a.txt'', 1::int), (''b.txt'', 2), (''a.txt'', 1)] = [(''a.txt'', 1), (''b.txt'', 2)]"
    by (simp add: first_seen_def)
  with format_sources_dedup [OF h] h show ?thesis
    by (simp add: render_citation_def str_int_def str_nat.simps digit_char_def)
qed

text \<open>
  Claim C9. A line that is not an exit command is one query. If the chain answers,
  exactly the turn (question, answer) is appended to the memory, the answer is printed
  with its citations, and the loop goes on with the next input from the extended memory;
  if the chain raises, the error is printed and the loop goes on with the next input
  from the memory as it was. In either case the memory at the end of the session
  extends the memory before the query: no earlier turn is lost or altered.
\<close>

theorem query_updates_memory:
  assumes "lower (strip text) \<notin> set [''exit'', ''quit'', ''q'', []]"
  shows "(case chain_backend w memory (strip text) of
            Inl e \<Rightarrow>
              conversation w memory (Line text # rest) =
                (case conversation w memory rest of
                   (status, m, out) \<Rightarrow> (status, m, Print_query_error e # out))
          | Inr (a, docs) \<Rightarrow>
              conversation w memory (Line text # rest) =
                (case conversation w (memory @ [(strip text, a)]) rest of
                   (status, m, out) \<Rightarrow> (status, m, Print_answer a (format_sources docs) # out))) \<and>
         (\<exists>turns. fst (snd (conversation w memory (Line text # rest))) = memory @ turns)"
proof -
  have grows: "\<exists>turns. fst (snd (conversation w m inputs)) = m @ turns" for m inputs
  proof (induction w m inputs rule: conversation.induct)
    case (1 w memory)
    then show ?case by simp
  next
    case (2 w memory rest)
    then show ?case by simp
  next
    case (3 w memory ln rest)
    show ?case
    proof (cases "lower (strip ln) \<in> set [''exit'', ''quit'', ''q'', []]")
      case True
      then show ?thesis by (simp add: Let_def)
    next
      case False
      show ?thesis
      proof (cases "chain_backend w memory (strip ln)")
        case (Inl e)
        then have q: "qa_chain w memory (strip ln) = (Inl e, memory)" by (simp add: qa_chain_def)
        from 3(1) [OF refl False q [symmetric] refl] obtain turns where
          "fst (snd (conversation w memory rest)) = memory @ turns" by blast
        with False q show ?thesis by (auto simp: Let_def split: prod.splits)
      next
        case (Inr ad)
        obtain a docs where ad: "ad = (a, docs)" by (cases ad)
        with Inr have q: "qa_chain w memory (strip ln) =
            (Inr \<lparr>res_answer = Some a, res_source_documents = Some docs\<rparr>, memory @ [(strip ln, a)])"
          by (simp add: qa_chain_def)
        from 3(2) [OF refl False q [symmetric] refl] obtain turns where
          "fst (snd (conversation w (memory @ [(strip ln, a)]) rest)) = (memory @ [(strip ln, a)]) @ turns"
          by blast
        with False q show ?thesis by (auto simp: Let_def split: prod.splits)
      qed
    qed
  qed
  have step: "case chain_backend w memory (strip text) of
            Inl e \<Rightarrow>
              conversation w memory (Line text # rest) =
                (case conversation w memory rest of
                   (status, m, out) \<Rightarrow> (status, m, Print_query_error e # out))
          | Inr (a, docs) \<Rightarrow>
              conversation w memory (Line text # rest) =
                (case conversation w (memory @ [(strip text, a)]) rest of
                   (status, m, out) \<Rightarrow> (status, m, Print_answer a (format_sources docs) # out))"
    using assms by (simp add: qa_chain_def Let_def getenv_def split: sum.splits prod.splits)
  from step grows [of memory "Line text # rest"] show ?thesis by blast
qed

theorem query_updates_memory_witness:
  "lower (strip ''boom'') \<notin> set [''exit'', ''quit'', ''q'', []] \<and>
   chain_backend sample_chat_world [(''one'', ''re: one''), (''two'', ''re: two'')] (strip ''boom'')
     = Inl (ProviderError ''timeout'') \<and>
   conversation sample_chat_world [(''one'', ''re: one''), (''two'', ''re: two'')]
       (Line ''boom'' # [Line ''three''])
     = (0, [(''one'', ''re: one''), (''two'', ''re: two''), (''three'', ''re: three'')],
        [Print_query_error (ProviderError ''timeout''),
         Print_answer ''re: three'' ''No sources found.'', Print_goodbye]) \<and>
   chat_loop sample_chat_world [Line ''one'', Line '' two '', Line ''boom'']
     = (0, Some [(''one'', ''re: one''), (''two'', ''re: two'')],
        [Print_welcome, Print_answer ''re: one'' ''No sources found.'',
         Print_answer ''re: two'' ''No sources found.'',
         Print_query_error (ProviderError ''timeout''), Print_goodbye])"
proof -
  have st: "strip ''boom'' = ''boom''" "strip ''one'' = ''one''" "strip '' two '' = ''two''"
    "strip ''three'' = ''three''"
    by (simp_all add: strip_def is_space_def)
  have lo: "lower ''boom'' = ''boom''" "lower ''one'' = ''one''" "lower ''two'' = ''two''"
    "lower ''three'' = ''three''"
    by (simp_all add: lower_def lower_char_def)
  have h: "lower (strip ''boom'') \<notin> set [''exit'', ''quit'', ''q'', []]" by (simp add: st lo)
  have f: "chain_backend sample_chat_world [(''one'', ''re: one''), (''two'', ''re: two'')] (strip ''boom'')
     = Inl (ProviderError ''timeout'')"
    by (simp add: st sample_chat_world_def)
  have rest: "conversation sample_chat_world [(''one'', ''re: one''), (''two'', ''re: two'')] [Line ''three'']
     = (0, [(''one'', ''re: one''), (''two'', ''re: two''), (''three'', ''re: three'')],
        [Print_answer ''re: three'' ''No sources found.'', Print_goodbye])"
    by (simp add: st lo qa_chain_def sample_chat_world_def getenv_def format_sources_def Let_def)
  from query_updates_memory [OF h, of sample_chat_world
      "[(''one'', ''re: one''), (''two'', ''re: two'')]" "[Line ''three'']"] f rest
  have c: "conversation sample_chat_world [(''one'', ''re: one''), (''two'', ''re: two'')]
       (Line ''boom'' # [Line ''three''])
     = (0, [(''one'', ''re: one''), (''two'', ''re: two''), (''three'', ''re: three'')],
        [Print_query_error (ProviderError ''timeout''),
         Print_answer ''re: three'' ''No sources found.'', Print_goodbye])"
    by simp
  have l: "chat_loop sample_chat_world [Line ''one'', Line '' two '', Line ''boom'']
     = (0, Some [(''one'', ''re: one''), (''two'', ''re: two'')],
        [Print_welcome, Print_answer ''re: one'' ''No sources found.'',
         Print_answer ''re: two'' ''No sources found.'',
         Print_query_error (ProviderError ''timeout''), Print_goodbye])"
    by (simp add: chat_loop_def chat_load_environment_def initialize_vectorstore_def
        create_retrieval_chain_def env_missing_def getenv_def st lo qa_chain_def
        sample_chat_world_def format_sources_def Let_def)
  from h f c l show ?thesis by blast
qed

text \<open>
  Claim C10. Formatting an empty sequence of retrieved documents gives the fixed string
  ``No sources found.''; the result for a non-empty sequence is ``Sources: '' followed by
  the citations joined with commas.
\<close>

theorem format_sources_empty_or_prefixed:
  "format_sources [] = ''No sources found.'' \<and>
   format_sources (doc # docs) = ''Sources: '' @ join '', '' (citation_loop (doc # docs) [] {}) \<and>
   take 9 (format_sources (doc # docs)) = ''Sources: ''"
  by (simp add: format_sources_def)

end
